theory Spec2Isabelle
  imports Complex_Main "HOL-Library.Word"
begin

section \<open>JavaScript strings\<close>

text \<open>
  A JavaScript string is a sequence of UTF-16 code units. Identifiers, titles and the
  text typed by the user are lists of 16-bit words; \<open>js\<close> embeds an ASCII literal.
\<close>

type_synonym js_string = "16 word list"

definition js :: "string \<Rightarrow> js_string" where
  "js s = map of_char s"

section \<open>The control panel: \<open>GameControls\<close>\<close>

text \<open>\<open>type ButtonColor = 'red' | 'green' | 'yellow'\<close>\<close>

datatype ButtonColor = red | green | yellow

text \<open>The \<open>state\<close> of the audio context that \<open>playSound\<close> inspects.\<close>

datatype AudioContextState = suspended | running

text \<open>
  The component's cells and the part of the browser they act on.
  \<^item> \<open>pressedState\<close>: the \<open>useState\<close> object \<open>{ red, green, yellow }\<close>;
  \<^item> \<open>audioContextRef\<close>: \<open>None\<close> is \<open>null\<close>;
  \<^item> \<open>soundIntervalRef\<close>: the object of timer handles keyed by colour, \<open>None\<close> for a
    key that is missing or \<open>null\<close>;
  \<^item> \<open>intervals\<close>: the repeating timers the browser currently runs, each with its
    handle and, for bookkeeping, the colour whose press started it;
  \<^item> \<open>nextHandle\<close>: the handle the next \<open>setInterval\<close> returns (handles are fresh);
  \<^item> \<open>ticks\<close>: how many times \<open>playTickSound\<close> has run.

  Handlers run one after the other, each on the state the previous one committed:
  React re-renders between two input events, so the \<open>pressedState\<close> a handler's
  closure reads is the current one.
\<close>

record controls =
  pressedState :: "ButtonColor \<Rightarrow> bool"
  audioContextRef :: "AudioContextState option"
  soundIntervalRef :: "ButtonColor \<Rightarrow> nat option"
  intervals :: "(nat \<times> ButtonColor) list"
  nextHandle :: nat
  ticks :: nat

text \<open>
  \<open>playSound\<close>: nothing without a context; a suspended context is resumed; then
  \<open>playTickSound(context)\<close>.
\<close>

definition playSound :: "controls \<Rightarrow> controls" where
  "playSound s =
     (case audioContextRef s of
        None \<Rightarrow> s
      | Some st \<Rightarrow>
          s\<lparr>audioContextRef := Some (if st = suspended then running else st),
            ticks := Suc (ticks s)\<rparr>)"











text \<open>The timers of one button, by handle.\<close>

definition timersOf :: "ButtonColor \<Rightarrow> controls \<Rightarrow> nat list" where
  "timersOf c s = map fst (filter (\<lambda>(h, c'). c' = c) (intervals s))"


section \<open>The video library of \<open>App\<close>\<close>

text \<open>\<open>type Video = { id: string; title: string; thumbnailUrl: string }\<close>\<close>

record Video =
  id' :: js_string
  title :: js_string
  thumbnailUrl :: js_string

text \<open>
  The \<open>useState\<close> cells of \<open>App\<close> that the library handlers read and write:
  \<open>videos\<close>, \<open>videoId\<close>, \<open>isModalOpen\<close> and the persisted \<open>favoriteIds\<close>.
  The list \<open>initialVideoIds\<close> is fixed for the lifetime of the component; the handler
  that reads it takes it as an argument, so every list of ids is covered.
\<close>

record app_state =
  videos :: "Video list"
  videoId :: js_string
  isModalOpen :: bool
  favoriteIds :: "js_string list"

subsection \<open>Favorites\<close>

text \<open>
  \<open>setFavoriteIds(prev => prev.includes(id) ? prev.filter(favId => favId !== id) : [...prev, id])\<close>
\<close>

definition handleToggleFavorite :: "js_string \<Rightarrow> app_state \<Rightarrow> app_state" where
  "handleToggleFavorite i s =
     s\<lparr>favoriteIds :=
         (let prev = favoriteIds s
          in if i \<in> set prev then filter (\<lambda>favId. favId \<noteq> i) prev else prev @ [i])\<rparr>"

text \<open>A sequence of toggle clicks, applied from left to right.\<close>

definition toggleAll :: "js_string list \<Rightarrow> app_state \<Rightarrow> app_state" where
  "toggleAll ids s = foldl (\<lambda>st i. handleToggleFavorite i st) s ids"

text \<open>
  \<open>new Map(videos.map(v => [v.id, v]))\<close>: the entries are inserted in order, a later
  entry with the same key replaces the earlier one.
\<close>

definition favoriteVideoMap :: "Video list \<Rightarrow> (js_string \<rightharpoonup> Video)" where
  "favoriteVideoMap vs = foldl (\<lambda>m v. m(id' v \<mapsto> v)) Map.empty vs"

text \<open>
  \<open>favoriteIds.map(id => favoriteVideoMap.get(id)).filter(v => v !== undefined)\<close>
\<close>

definition favoriteVideos :: "Video list \<Rightarrow> js_string list \<Rightarrow> Video list" where
  "favoriteVideos vs favs =
     map the (filter (\<lambda>v. v \<noteq> None) (map (favoriteVideoMap vs) favs))"

subsection \<open>Metadata: \<open>fetchVideoDetails\<close>\<close>

text \<open>
  What the network answers to one request. \<open>fetch\<close> rejects, or resolves to a response
  with its \<open>ok\<close> flag; \<open>response.json()\<close> rejects, or resolves to an object whose fields
  \<open>error\<close>, \<open>title\<close> and \<open>thumbnail_url\<close> may be missing. A body on which reading
  \<open>data.error\<close> throws counts as \<open>BodyRejects\<close>: the async callback rejects either way.
\<close>

record noembed_data =
  data_error :: "js_string option"
  data_title :: "js_string option"
  data_thumbnail_url :: "js_string option"

datatype response_body = BodyRejects | Body noembed_data

datatype fetch_outcome = FetchRejects | Response bool response_body

text \<open>The network of one call: the outcome of the request to each URL.\<close>

type_synonym network = "js_string \<Rightarrow> fetch_outcome"

text \<open>JavaScript truthiness of an optional string: present and not empty.\<close>

definition truthy :: "js_string option \<Rightarrow> bool" where
  "truthy v = (case v of None \<Rightarrow> False | Some t \<Rightarrow> t \<noteq> [])"

text \<open>\<open>v || d\<close>\<close>

definition orElse :: "js_string option \<Rightarrow> js_string \<Rightarrow> js_string" where
  "orElse v d = (case v of None \<Rightarrow> d | Some t \<Rightarrow> if t \<noteq> [] then t else d)"

definition requestUrl :: "js_string \<Rightarrow> js_string" where
  "requestUrl i = js ''https://noembed.com/embed?url=https://www.youtube.com/watch?v='' @ i"

text \<open>
  The template \<open>https://i.ytimg.com/vi/${id}/mqdefault.jpg\<close>, and the two title
  templates: U+52D5 U+753B followed by \<open> (ID: ${id})\<close>, and the same with the prefix
  U+7121 U+984C U+306E for a video whose metadata has no title.
\<close>

definition thumbnailTemplate :: "js_string \<Rightarrow> js_string" where
  "thumbnailTemplate i = js ''https://i.ytimg.com/vi/'' @ i @ js ''/mqdefault.jpg''"

definition defaultData :: "js_string \<Rightarrow> Video" where
  "defaultData i =
     \<lparr>id' = i, title = [0x52D5, 0x753B] @ js '' (ID: '' @ i @ js '')'',
      thumbnailUrl = thumbnailTemplate i\<rparr>"

definition untitled :: "js_string \<Rightarrow> js_string" where
  "untitled i = [0x7121, 0x984C, 0x306E, 0x52D5, 0x753B] @ js '' (ID: '' @ i @ js '')''"

text \<open>The video built from the metadata \<open>data\<close> of a lookup that succeeded.\<close>

definition fetchedData :: "js_string \<Rightarrow> noembed_data \<Rightarrow> Video" where
  "fetchedData i d =
     \<lparr>id' = i, title = orElse (data_title d) (untitled i),
      thumbnailUrl = orElse (data_thumbnail_url d) (thumbnailTemplate i)\<rparr>"

text \<open>
  The async callback of \<open>ids.map\<close> for one id; \<open>None\<close> when its promise rejects.
\<close>

definition videoData :: "network \<Rightarrow> js_string \<Rightarrow> Video option" where
  "videoData net i =
     (case net (requestUrl i) of
        FetchRejects \<Rightarrow> None
      | Response ok b \<Rightarrow>
          if \<not> ok then Some (defaultData i)
          else (case b of
                  BodyRejects \<Rightarrow> None
                | Body d \<Rightarrow>
                    if truthy (data_error d) then Some (defaultData i)
                    else Some (fetchedData i d)))"

text \<open>\<open>Promise.all\<close>: rejects as soon as one promise rejects.\<close>

fun Promise_all :: "'a option list \<Rightarrow> 'a list option" where
  "Promise_all [] = Some []"
| "Promise_all (None # ps) = None"
| "Promise_all (Some v # ps) = (case Promise_all ps of None \<Rightarrow> None | Some vs \<Rightarrow> Some (v # vs))"

text \<open>
  \<open>try { return await Promise.all(ids.map(...)) } catch { return ids.map(default) }\<close>
\<close>

definition fetchVideoDetails :: "network \<Rightarrow> js_string list \<Rightarrow> Video list" where
  "fetchVideoDetails net ids =
     (case Promise_all (map (videoData net) ids) of
        Some vs \<Rightarrow> vs
      | None \<Rightarrow> map defaultData ids)"

text \<open>
  The lookups the properties speak of. A lookup fails on a network error, a response
  that is not \<open>ok\<close>, or a payload with an \<open>error\<close>; among these, it throws when
  \<open>fetch\<close> or \<open>response.json()\<close> rejects.
\<close>

definition lookupFails :: "network \<Rightarrow> js_string \<Rightarrow> bool" where
  "lookupFails net i =
     (case net (requestUrl i) of
        FetchRejects \<Rightarrow> True
      | Response ok b \<Rightarrow>
          \<not> ok \<or> (case b of BodyRejects \<Rightarrow> True | Body d \<Rightarrow> truthy (data_error d)))"

definition lookupThrows :: "network \<Rightarrow> js_string \<Rightarrow> bool" where
  "lookupThrows net i =
     (case net (requestUrl i) of
        FetchRejects \<Rightarrow> True
      | Response ok b \<Rightarrow> ok \<and> b = BodyRejects)"

subsection \<open>The URL resolver: \<open>extractVideoId\<close>\<close>

text \<open>
  The regular expression of \<open>extractVideoId\<close>, as a backtracking matcher: a matcher
  maps the rest of the input to the rests it can leave behind, in the order in which
  the JavaScript engine tries them.
\<close>

type_synonym matcher = "js_string \<Rightarrow> js_string list"

definition lit :: "string \<Rightarrow> matcher" where
  "lit w s = (if take (length w) s = js w then [drop (length w) s] else [])"

text \<open>\<open>p?\<close> (greedy): with \<open>p\<close> first, then without.\<close>

definition opt :: "matcher \<Rightarrow> matcher" where
  "opt p s = p s @ [s]"

definition seq :: "matcher \<Rightarrow> matcher \<Rightarrow> matcher" where
  "seq p q s = concat (map q (p s))"

text \<open>\<open>p|q\<close>: the left alternative first.\<close>

definition alt :: "matcher \<Rightarrow> matcher \<Rightarrow> matcher" where
  "alt p q s = p s @ q s"

text \<open>One code unit of a class.\<close>

definition one :: "(16 word \<Rightarrow> bool) \<Rightarrow> matcher" where
  "one C s = (case s of [] \<Rightarrow> [] | c # r \<Rightarrow> if C c then [r] else [])"

text \<open>\<open>C+\<close> (greedy): the longest run first, down to one code unit.\<close>

definition plus_greedy :: "(16 word \<Rightarrow> bool) \<Rightarrow> matcher" where
  "plus_greedy C s = map (\<lambda>k. drop k s) (rev [1..<Suc (length (takeWhile C s))])"

text \<open>\<open>C*?\<close> (lazy): the empty run first, up to the longest.\<close>

definition star_lazy :: "(16 word \<Rightarrow> bool) \<Rightarrow> matcher" where
  "star_lazy C s = map (\<lambda>k. drop k s) [0..<Suc (length (takeWhile C s))]"

text \<open>
  \<open>\s\<close>: the white space and line terminator code units of ECMAScript.
\<close>

definition isSpace :: "16 word \<Rightarrow> bool" where
  "isSpace c \<longleftrightarrow>
     c \<in> set [0x9, 0xA, 0xB, 0xC, 0xD, 0x20, 0xA0, 0x1680, 0x2028, 0x2029, 0x202F,
               0x205F, 0x3000, 0xFEFF]
     \<or> (0x2000 \<le> c \<and> c \<le> 0x200A)"

text \<open>\<open>\S\<close>\<close>

definition notSpace :: "16 word \<Rightarrow> bool" where
  "notSpace c \<longleftrightarrow> \<not> isSpace c"

text \<open>\<open>[^\/\n\s]\<close>\<close>

definition segmentChar :: "16 word \<Rightarrow> bool" where
  "segmentChar c \<longleftrightarrow> c \<noteq> of_char CHR ''/'' \<and> c \<noteq> 0xA \<and> \<not> isSpace c"

text \<open>\<open>[a-zA-Z0-9_-]\<close>\<close>

definition idChar :: "16 word \<Rightarrow> bool" where
  "idChar c \<longleftrightarrow>
     (of_char CHR ''a'' \<le> c \<and> c \<le> of_char CHR ''z'')
     \<or> (of_char CHR ''A'' \<le> c \<and> c \<le> of_char CHR ''Z'')
     \<or> (of_char CHR ''0'' \<le> c \<and> c \<le> of_char CHR ''9'')
     \<or> c = of_char CHR ''_'' \<or> c = of_char CHR ''-''"

text \<open>
  Everything before the capture group:
  \<open>(?:https?:\/\/)?(?:www\.)?(?:youtube\.com\/(?:[^\/\n\s]+\/\S+\/|(?:v|e(?:mbed)?)\/|\S*?[?&]v=)|youtu\.be\/)\<close>
\<close>

definition regex_head :: matcher where
  "regex_head =
     seq (opt (seq (lit ''http'') (seq (opt (lit ''s'')) (lit ''://''))))
    (seq (opt (lit ''www.''))
         (alt (seq (lit ''youtube.com/'')
                (alt (seq (plus_greedy segmentChar)
                       (seq (lit ''/'') (seq (plus_greedy notSpace) (lit ''/''))))
                (alt (seq (alt (lit ''v'') (seq (lit ''e'') (opt (lit ''mbed'')))) (lit ''/''))
                     (seq (star_lazy notSpace)
                       (seq (one (\<lambda>c. c = of_char CHR ''?'' \<or> c = of_char CHR ''&''))
                            (lit ''v=''))))))
              (lit ''youtu.be/'')))"

text \<open>The capture group \<open>([a-zA-Z0-9_-]{11})\<close>, which ends the expression.\<close>

definition regex_group1 :: "js_string \<Rightarrow> js_string option" where
  "regex_group1 s =
     (if 11 \<le> length s \<and> list_all idChar (take 11 s) then Some (take 11 s) else None)"

fun first_some :: "('a \<Rightarrow> 'b option) \<Rightarrow> 'a list \<Rightarrow> 'b option" where
  "first_some f [] = None"
| "first_some f (x # xs) = (case f x of Some y \<Rightarrow> Some y | None \<Rightarrow> first_some f xs)"

text \<open>A match that starts at the first code unit of \<open>s\<close>: its group 1.\<close>

definition regex_at :: "js_string \<Rightarrow> js_string option" where
  "regex_at s = first_some regex_group1 (regex_head s)"

text \<open>\<open>url.match(regex)\<close>: the leftmost start position that matches; group 1 of it.\<close>

fun regex_match :: "js_string \<Rightarrow> js_string option" where
  "regex_match [] = regex_at []"
| "regex_match (c # r) =
     (case regex_at (c # r) of Some m \<Rightarrow> Some m | None \<Rightarrow> regex_match r)"

text \<open>\<open>return match ? match[1] : null\<close>\<close>

definition extractVideoId :: "js_string \<Rightarrow> js_string option" where
  "extractVideoId url = regex_match url"

subsection \<open>Selecting and adding\<close>

text \<open>
  \<open>if (videoId !== id) setVideoId(id)\<close>. The \<open>videoId\<close> compared is the one of the render
  that created the handler, the argument \<open>cur\<close>; the state \<open>s\<close> is the one the setter
  acts on.
\<close>

definition handleSelectNewVideo :: "js_string \<Rightarrow> js_string \<Rightarrow> app_state \<Rightarrow> app_state" where
  "handleSelectNewVideo cur i s = (if cur \<noteq> i then s\<lparr>videoId := i\<rparr> else s)"

definition handleSelectVideoFromModal :: "js_string \<Rightarrow> js_string \<Rightarrow> app_state \<Rightarrow> app_state" where
  "handleSelectVideoFromModal cur i s = (handleSelectNewVideo cur i s)\<lparr>isModalOpen := False\<rparr>"

text \<open>
  What a render hands to the callbacks it creates. \<open>handleAddVideo\<close> is memoised with
  the dependencies \<open>[videos, fetchVideoDetails]\<close> and awaits the network, so the values
  it captured and the state its setters act on are kept apart; \<open>rendered s\<close> is the
  capture of a render of \<open>s\<close>.
\<close>

record capture =
  c_videos :: "Video list"
  c_videoId :: js_string

definition rendered :: "app_state \<Rightarrow> capture" where
  "rendered s = \<lparr>c_videos = videos s, c_videoId = videoId s\<rparr>"

text \<open>
  The two errors \<open>handleAddVideo\<close> throws: the one for a text without a video id, and
  the one its \<open>catch\<close> block throws.
\<close>

datatype add_error = InvalidReference | AdditionFailed

text \<open>
  \<open>handleAddVideo\<close>: the error thrown, if any, and the state afterwards.
\<close>

definition handleAddVideo ::
  "network \<Rightarrow> capture \<Rightarrow> js_string \<Rightarrow> app_state \<Rightarrow> add_error option \<times> app_state" where
  "handleAddVideo net cap url s =
     (case extractVideoId url of
        None \<Rightarrow> (Some InvalidReference, s)
      | Some newVideoId \<Rightarrow>
          if newVideoId = [] then (Some InvalidReference, s)
          else if list_ex (\<lambda>v. id' v = newVideoId) (c_videos cap)
          then (None, handleSelectVideoFromModal (c_videoId cap) newVideoId s)
          else (case fetchVideoDetails net [newVideoId] of
                  [] \<Rightarrow> (Some AdditionFailed, s)
                | fetched # rest \<Rightarrow>
                    (None, handleSelectVideoFromModal (c_videoId cap) newVideoId
                             (s\<lparr>videos := fetched # videos s\<rparr>))))"

subsection \<open>Resetting the added videos\<close>

text \<open>
  A result of \<open>Math.random()\<close> is a double in \<open>[0, 1)\<close>: a value
  \<open>mantissa / 2 ^ exponent\<close> with a mantissa of at most 53 bits, below
  \<open>2 ^ exponent\<close>, and an exponent of at most 1074.
\<close>

record unit_double =
  mantissa :: nat
  exponent :: nat

definition Math_random :: "unit_double \<Rightarrow> bool" where
  "Math_random u \<longleftrightarrow>
     mantissa u < 2 ^ 53 \<and> mantissa u < 2 ^ exponent u \<and> exponent u \<le> 1074"

definition double_value :: "unit_double \<Rightarrow> real" where
  "double_value u = real (mantissa u) / 2 ^ exponent u"

text \<open>The number of binary digits of a natural number.\<close>

fun bits :: "nat \<Rightarrow> nat" where
  "bits p = (if p = 0 then 0 else Suc (bits (p div 2)))"

declare bits.simps [simp del]

text \<open>
  Rounding to a double, on naturals: the nearest number with at most 53 significant
  binary digits, the one with the even significand on a tie.
\<close>

definition round53 :: "nat \<Rightarrow> nat" where
  "round53 p =
     (let s = bits p - 53; q = p div 2 ^ s; r = p mod 2 ^ s
      in (if 2 * r < 2 ^ s \<or> (2 * r = 2 ^ s \<and> even q) then q else q + 1) * 2 ^ s)"

text \<open>
  \<open>Math.floor(Math.random() * n)\<close> for a result \<open>u\<close> of \<open>Math.random()\<close> and a length
  \<open>n\<close>. The product of the two doubles is the exact product
  \<open>mantissa * n / 2 ^ exponent\<close> rounded to a double, that is
  \<open>round53 (mantissa * n) / 2 ^ exponent\<close>; \<open>Math.floor\<close> of it is the quotient of the
  division by \<open>2 ^ exponent\<close>. A length is below \<open>2 ^ 32\<close>, so it is a double. A product
  that rounding changes has more than 53 digits, so its value is at least
  \<open>2 ^ 53 / 2 ^ 1074\<close>, a normal double, and it is rounded to 53 digits.
\<close>

definition randomIndex :: "unit_double \<Rightarrow> nat \<Rightarrow> nat" where
  "randomIndex u n = round53 (mantissa u * n) div 2 ^ exponent u"

definition handleResetUserVideos ::
  "js_string list \<Rightarrow> unit_double \<Rightarrow> app_state \<Rightarrow> app_state" where
  "handleResetUserVideos initialVideoIds u s =
     (let s1 = s\<lparr>videos := filter (\<lambda>video. id' video \<in> set initialVideoIds) (videos s)\<rparr>
      in if videoId s \<notin> set initialVideoIds
         then (if length initialVideoIds > 0
               then s1\<lparr>videoId := initialVideoIds ! randomIndex u (length initialVideoIds)\<rparr>
               else s1\<lparr>videoId := []\<rparr>)
         else s1)"

subsection \<open>Picking another video\<close>

text \<open>
  The \<open>do ... while (newVideoId === videoId)\<close> loop of \<open>handleFeelingLucky\<close>. \<open>rnd k\<close> is
  the result of the \<open>k\<close>-th call of \<open>Math.random()\<close>; the value \<open>None\<close> stands for a loop
  that does not end. For a result of \<open>Math.random()\<close> the index is below the length of
  the list (\<open>randomIndex_less\<close>), so the read \<open>videos[randomIndex]\<close> is in range.
\<close>

partial_function (option) pickOther ::
  "(nat \<Rightarrow> unit_double) \<Rightarrow> Video list \<Rightarrow> js_string \<Rightarrow> nat \<Rightarrow> js_string option" where
  "pickOther rnd vs cur k =
     (let newVideoId = id' (vs ! randomIndex (rnd k) (length vs))
      in if newVideoId = cur then pickOther rnd vs cur (Suc k) else Some newVideoId)"

definition handleFeelingLucky ::
  "(nat \<Rightarrow> unit_double) \<Rightarrow> app_state \<Rightarrow> app_state option" where
  "handleFeelingLucky rnd s =
     (if length (videos s) \<le> 1 then Some s
      else (case pickOther rnd (videos s) (videoId s) 0 of
              None \<Rightarrow> None
            | Some newVideoId \<Rightarrow> Some (handleSelectNewVideo (videoId s) newVideoId s)))"

section \<open>Example data\<close>

text \<open>Videos and states named by short ASCII ids, for concrete instances.\<close>

definition exampleVideo :: "string \<Rightarrow> Video" where
  "exampleVideo n = \<lparr>id' = js n, title = js n, thumbnailUrl = thumbnailTemplate (js n)\<rparr>"

definition exampleState :: "string list \<Rightarrow> string \<Rightarrow> string list \<Rightarrow> app_state" where
  "exampleState vs cur favs =
     \<lparr>videos = map exampleVideo vs, videoId = js cur, isModalOpen = True,
      favoriteIds = map js favs\<rparr>"

text \<open>What a render captured: the videos by their ids, and the selected id.\<close>

definition exampleCapture :: "string list \<Rightarrow> string \<Rightarrow> capture" where
  "exampleCapture vs cur = \<lparr>c_videos = map exampleVideo vs, c_videoId = js cur\<rparr>"

text \<open>The double \<open>m / 2 ^ k\<close>.\<close>

definition exampleDraw :: "nat \<Rightarrow> nat \<Rightarrow> unit_double" where
  "exampleDraw m k = \<lparr>mantissa = m, exponent = k\<rparr>"

definition exampleNetwork :: "string \<Rightarrow> fetch_outcome \<Rightarrow> noembed_data \<Rightarrow> network" where
  "exampleNetwork n out d =
     (\<lambda>u. if u = requestUrl (js n) then out else Response True (Body d))"

definition exampleData :: noembed_data where
  "exampleData = \<lparr>data_error = None, data_title = Some (js ''Song''),
                   data_thumbnail_url = Some (js ''https://img/1.jpg'')\<rparr>"

section \<open>Properties of the favorites\<close>

subsection \<open>Toggling\<close>

lemma toggle_favoriteIds:
  "favoriteIds (handleToggleFavorite i s) =
     (if i \<in> set (favoriteIds s) then filter (\<lambda>favId. favId \<noteq> i) (favoriteIds s)
      else favoriteIds s @ [i])"
  by (simp add: handleToggleFavorite_def Let_def)

lemma toggle_distinct:
  "distinct (favoriteIds s) \<Longrightarrow> distinct (favoriteIds (handleToggleFavorite i s))"
  by (simp add: toggle_favoriteIds)

lemma toggle_member:
  "j \<in> set (favoriteIds (handleToggleFavorite i s)) \<longleftrightarrow>
     (if j = i then i \<notin> set (favoriteIds s) else j \<in> set (favoriteIds s))"
  by (auto simp: toggle_favoriteIds)

lemma toggleAll_Nil: "toggleAll [] s = s"
  by (simp add: toggleAll_def)

lemma toggleAll_Cons: "toggleAll (i # ids) s = toggleAll ids (handleToggleFavorite i s)"
  by (simp add: toggleAll_def)

lemma toggleAll_distinct:
  "distinct (favoriteIds s) \<Longrightarrow> distinct (favoriteIds (toggleAll ids s))"
proof (induction ids arbitrary: s)
  case Nil
  then show ?case by (simp add: toggleAll_Nil)
next
  case (Cons i ids)
  from Cons.prems have "distinct (favoriteIds (handleToggleFavorite i s))"
    by (rule toggle_distinct)
  then show ?case
    unfolding toggleAll_Cons by (rule Cons.IH)
qed

lemma toggleAll_member:
  "j \<in> set (favoriteIds (toggleAll ids s)) \<longleftrightarrow>
     (j \<in> set (favoriteIds s)) \<noteq> odd (count_list ids j)"
proof (induction ids arbitrary: s)
  case Nil
  show ?case by (simp add: toggleAll_Nil)
next
  case (Cons i ids)
  show ?case
    unfolding toggleAll_Cons Cons.IH toggle_member by auto
qed

text \<open>
  C1. Starting from an empty favorite list, after any sequence of toggles every id
  occurs at most once in the list, and an id is in the list exactly when it was toggled
  an odd number of times. A toggle of an absent id appends it at the end; a toggle of a
  present id removes every occurrence of it and keeps the other ids in their order.
\<close>

theorem toggleFavorite_parity:
  "distinct (favoriteIds (toggleAll ids (s\<lparr>favoriteIds := []\<rparr>)))
   \<and> (j \<in> set (favoriteIds (toggleAll ids (s\<lparr>favoriteIds := []\<rparr>))) \<longleftrightarrow> odd (count_list ids j))
   \<and> (i \<notin> set (favoriteIds t) \<longrightarrow>
        favoriteIds (handleToggleFavorite i t) = favoriteIds t @ [i])
   \<and> (i \<in> set (favoriteIds t) \<longrightarrow>
        i \<notin> set (favoriteIds (handleToggleFavorite i t))
        \<and> favoriteIds (handleToggleFavorite i t) = filter (\<lambda>favId. favId \<noteq> i) (favoriteIds t))"
proof -
  have "distinct (favoriteIds (toggleAll ids (s\<lparr>favoriteIds := []\<rparr>)))"
    by (rule toggleAll_distinct) simp
  moreover have "j \<in> set (favoriteIds (toggleAll ids (s\<lparr>favoriteIds := []\<rparr>)))
      \<longleftrightarrow> odd (count_list ids j)"
    by (simp add: toggleAll_member)
  ultimately show ?thesis
    by (simp add: toggle_favoriteIds)
qed

text \<open>
  Instances of C1: toggling A, B, A from the empty list leaves B; toggling the absent C
  appends it; toggling B removes both of its occurrences.
\<close>

theorem toggleFavorite_parity_witness:
  "favoriteIds (toggleAll [js ''A'', js ''B'', js ''A''] (exampleState [] [] [])) = [js ''B'']
   \<and> odd (count_list [js ''A'', js ''B'', js ''A''] (js ''B''))
   \<and> js ''C'' \<notin> set (favoriteIds (exampleState [] [] [''B'']))
   \<and> favoriteIds (handleToggleFavorite (js ''C'') (exampleState [] [] [''B''])) = [js ''B'', js ''C'']
   \<and> js ''B'' \<in> set (favoriteIds (exampleState [] [] [''B'', ''A'', ''B'']))
   \<and> favoriteIds (handleToggleFavorite (js ''B'') (exampleState [] [] [''B'', ''A'', ''B''])) = [js ''A'']"
proof -
  have a: "js ''C'' \<notin> set (favoriteIds (exampleState [] [] [''B'']))"
    by code_simp
  have p: "js ''B'' \<in> set (favoriteIds (exampleState [] [] [''B'', ''A'', ''B'']))"
    by code_simp
  have e: "favoriteIds (toggleAll [js ''A'', js ''B'', js ''A''] (exampleState [] [] [])) = [js ''B'']"
    "odd (count_list [js ''A'', js ''B'', js ''A''] (js ''B''))"
    "favoriteIds (exampleState [] [] [''B'']) @ [js ''C''] = [js ''B'', js ''C'']"
    "filter (\<lambda>favId. favId \<noteq> js ''B'') (favoriteIds (exampleState [] [] [''B'', ''A'', ''B''])) = [js ''A'']"
    by code_simp+
  from a p e
    toggleFavorite_parity [of _ _ _ "js ''C''" "exampleState [] [] [''B'']"]
    toggleFavorite_parity [of _ _ _ "js ''B''" "exampleState [] [] [''B'', ''A'', ''B'']"]
  show ?thesis by simp
qed

subsection \<open>The favorites view\<close>

lemma favoriteVideoMap_snoc:
  "favoriteVideoMap (vs @ [v]) = (favoriteVideoMap vs)(id' v \<mapsto> v)"
  by (simp add: favoriteVideoMap_def)

lemma favoriteVideoMap_Nil: "favoriteVideoMap [] = Map.empty"
  by (simp add: favoriteVideoMap_def)

lemma favoriteVideoMap_Some:
  "favoriteVideoMap vs i = Some v \<Longrightarrow> v \<in> set vs \<and> id' v = i"
proof (induction vs rule: rev_induct)
  case Nil
  then show ?case by (simp add: favoriteVideoMap_Nil)
next
  case (snoc x xs)
  then show ?case
    by (auto simp: favoriteVideoMap_snoc split: if_splits)
qed

lemma favoriteVideoMap_None:
  "favoriteVideoMap vs i = None \<longleftrightarrow> i \<notin> id' ` set vs"
proof (induction vs rule: rev_induct)
  case Nil
  show ?case by (simp add: favoriteVideoMap_Nil)
next
  case (snoc x xs)
  then show ?case
    by (auto simp: favoriteVideoMap_snoc)
qed

lemma favoriteVideoMap_distinct:
  "distinct (map id' vs) \<Longrightarrow> v \<in> set vs \<Longrightarrow> favoriteVideoMap vs (id' v) = Some v"
proof (induction vs rule: rev_induct)
  case Nil
  then show ?case by simp
next
  case (snoc x xs)
  show ?case
  proof (cases "v = x")
    case True
    then show ?thesis by (simp add: favoriteVideoMap_snoc)
  next
    case False
    with snoc.prems have "v \<in> set xs" and "id' v \<noteq> id' x" and "distinct (map id' xs)"
      by (auto simp: image_iff)
    with snoc.IH show ?thesis by (simp add: favoriteVideoMap_snoc)
  qed
qed

lemma favoriteVideos_Nil: "favoriteVideos vs [] = []"
  by (simp add: favoriteVideos_def)

lemma favoriteVideos_Cons:
  "favoriteVideos vs (i # favs) =
     (case favoriteVideoMap vs i of None \<Rightarrow> favoriteVideos vs favs
      | Some v \<Rightarrow> v # favoriteVideos vs favs)"
  by (simp add: favoriteVideos_def split: option.splits)

lemma favoriteVideos_ids:
  "map id' (favoriteVideos vs favs) = filter (\<lambda>i. i \<in> id' ` set vs) favs"
proof (induction favs)
  case Nil
  show ?case by (simp add: favoriteVideos_Nil)
next
  case (Cons i favs)
  show ?case
  proof (cases "favoriteVideoMap vs i")
    case None
    then have "i \<notin> id' ` set vs" by (simp add: favoriteVideoMap_None)
    with None Cons show ?thesis by (simp add: favoriteVideos_Cons)
  next
    case (Some v)
    then have "v \<in> set vs" "id' v = i" by (auto dest: favoriteVideoMap_Some)
    then have "i \<in> id' ` set vs" by auto
    with Some Cons \<open>id' v = i\<close> show ?thesis by (simp add: favoriteVideos_Cons)
  qed
qed

lemma favoriteVideos_set:
  "set (favoriteVideos vs favs) = {v. \<exists>i \<in> set favs. favoriteVideoMap vs i = Some v}"
  by (induction favs) (auto simp: favoriteVideos_Nil favoriteVideos_Cons split: option.splits)

lemma favoriteVideos_subset: "set (favoriteVideos vs favs) \<subseteq> set vs"
  by (auto simp: favoriteVideos_set dest: favoriteVideoMap_Some)

lemma favoriteVideos_distinct_set:
  assumes "distinct (map id' vs)"
  shows "set (favoriteVideos vs favs) = {v \<in> set vs. id' v \<in> set favs}"
proof
  show "set (favoriteVideos vs favs) \<subseteq> {v \<in> set vs. id' v \<in> set favs}"
    by (auto simp: favoriteVideos_set dest: favoriteVideoMap_Some)
  show "{v \<in> set vs. id' v \<in> set favs} \<subseteq> set (favoriteVideos vs favs)"
    using assms by (auto simp: favoriteVideos_set intro: favoriteVideoMap_distinct)
qed

text \<open>
  C2. The favorites view lists, in the order of the favorite ids, one video for each
  favorite id that the collection holds, and nothing for a favorite id it does not hold:
  every video of the view is a video of the collection, and evaluating the view never
  fails. When the ids of the collection are distinct the view holds exactly the videos
  of the collection whose id is a favorite.
\<close>

theorem favoriteVideos_present:
  "map id' (favoriteVideos vs favs) = filter (\<lambda>i. i \<in> id' ` set vs) favs
   \<and> set (favoriteVideos vs favs) \<subseteq> set vs
   \<and> (distinct (map id' vs) \<longrightarrow>
        set (favoriteVideos vs favs) = {v \<in> set vs. id' v \<in> set favs})"
  using favoriteVideos_ids favoriteVideos_subset favoriteVideos_distinct_set by blast

text \<open>
  An instance of C2: the collection holds A and B, the favorites are C, B, A; the view
  is B, A.
\<close>

theorem favoriteVideos_present_witness:
  "distinct (map id' [exampleVideo ''A'', exampleVideo ''B''])
   \<and> map id' (favoriteVideos [exampleVideo ''A'', exampleVideo ''B''] [js ''C'', js ''B'', js ''A''])
       = [js ''B'', js ''A'']
   \<and> set (favoriteVideos [exampleVideo ''A'', exampleVideo ''B''] [js ''C'', js ''B'', js ''A''])
       = {v \<in> set [exampleVideo ''A'', exampleVideo ''B'']. id' v \<in> set [js ''C'', js ''B'', js ''A'']}"
proof -
  have d: "distinct (map id' [exampleVideo ''A'', exampleVideo ''B''])"
    by code_simp
  have f: "filter (\<lambda>i. i \<in> id' ` set [exampleVideo ''A'', exampleVideo ''B'']) [js ''C'', js ''B'', js ''A'']
      = [js ''B'', js ''A'']"
    by code_simp
  from d f favoriteVideos_present [of "[exampleVideo ''A'', exampleVideo ''B'']" "[js ''C'', js ''B'', js ''A'']"]
  show ?thesis by simp
qed

section \<open>Properties of \<open>fetchVideoDetails\<close>\<close>

lemma Promise_all_SomeD: "Promise_all ps = Some vs \<Longrightarrow> ps = map Some vs"
  by (induction ps arbitrary: vs rule: Promise_all.induct) (auto split: option.splits)

lemma Promise_all_None: "Promise_all ps = None \<longleftrightarrow> None \<in> set ps"
  by (induction ps rule: Promise_all.induct) (auto split: option.splits)

lemma videoData_None: "videoData net i = None \<longleftrightarrow> lookupThrows net i"
  by (auto simp: videoData_def lookupThrows_def split: fetch_outcome.splits response_body.splits)

lemma videoData_fails:
  "lookupFails net i \<Longrightarrow> \<not> lookupThrows net i \<Longrightarrow> videoData net i = Some (defaultData i)"
  by (auto simp: videoData_def lookupThrows_def lookupFails_def
      split: fetch_outcome.splits response_body.splits)

lemma videoData_succeeds:
  "\<not> lookupFails net i \<Longrightarrow>
     \<exists>d. net (requestUrl i) = Response True (Body d) \<and> videoData net i = Some (fetchedData i d)"
  by (auto simp: videoData_def lookupFails_def split: fetch_outcome.splits response_body.splits)

lemma videoData_id: "videoData net i = Some v \<Longrightarrow> id' v = i"
  by (auto simp: videoData_def defaultData_def fetchedData_def
      split: fetch_outcome.splits response_body.splits if_splits)

lemma fetchVideoDetails_throw:
  "\<exists>i \<in> set ids. lookupThrows net i \<Longrightarrow> fetchVideoDetails net ids = map defaultData ids"
proof -
  assume "\<exists>i \<in> set ids. lookupThrows net i"
  then obtain i where "i \<in> set ids" and "videoData net i = None"
    by (auto simp: videoData_None)
  then have "None \<in> set (map (videoData net) ids)"
    by (metis image_eqI set_map)
  then have "Promise_all (map (videoData net) ids) = None"
    by (simp only: Promise_all_None)
  then show ?thesis by (simp add: fetchVideoDetails_def)
qed

lemma fetchVideoDetails_no_throw:
  assumes "\<forall>i \<in> set ids. \<not> lookupThrows net i"
  shows "map Some (fetchVideoDetails net ids) = map (videoData net) ids"
proof -
  have "None \<notin> set (map (videoData net) ids)"
  proof
    assume "None \<in> set (map (videoData net) ids)"
    then obtain i where "i \<in> set ids" and "videoData net i = None"
      by (metis imageE set_map)
    with assms show False by (simp add: videoData_None)
  qed
  then obtain vs where vs: "Promise_all (map (videoData net) ids) = Some vs"
    by (cases "Promise_all (map (videoData net) ids)") (auto simp only: Promise_all_None)
  then have "map (videoData net) ids = map Some vs"
    by (rule Promise_all_SomeD)
  with vs show ?thesis by (simp add: fetchVideoDetails_def)
qed

lemma fetchVideoDetails_ids: "map id' (fetchVideoDetails net ids) = ids"
proof (cases "\<exists>i \<in> set ids. lookupThrows net i")
  case True
  then have "fetchVideoDetails net ids = map defaultData ids"
    by (rule fetchVideoDetails_throw)
  then show ?thesis by (simp add: defaultData_def comp_def)
next
  case False
  then have m: "map Some (fetchVideoDetails net ids) = map (videoData net) ids"
    by (intro fetchVideoDetails_no_throw) simp
  then have len: "length (fetchVideoDetails net ids) = length ids"
    by (metis length_map)
  show ?thesis
  proof (rule nth_equalityI)
    show "length (map id' (fetchVideoDetails net ids)) = length ids"
      using len by simp
  next
    fix k
    assume "k < length (map id' (fetchVideoDetails net ids))"
    then have k: "k < length ids" using len by simp
    from m have "map Some (fetchVideoDetails net ids) ! k = map (videoData net) ids ! k"
      by simp
    with k len have "videoData net (ids ! k) = Some (fetchVideoDetails net ids ! k)"
      by simp
    then have "id' (fetchVideoDetails net ids ! k) = ids ! k"
      by (rule videoData_id)
    with k len show "map id' (fetchVideoDetails net ids) ! k = ids ! k"
      by simp
  qed
qed

lemma fetchVideoDetails_length: "length (fetchVideoDetails net ids) = length ids"
  by (metis fetchVideoDetails_ids length_map)

lemma fetchVideoDetails_nth:
  assumes "\<forall>i \<in> set ids. \<not> lookupThrows net i" and "k < length ids"
  shows "videoData net (ids ! k) = Some (fetchVideoDetails net ids ! k)"
proof -
  from assms(1) have "map Some (fetchVideoDetails net ids) = map (videoData net) ids"
    by (rule fetchVideoDetails_no_throw)
  then have "map Some (fetchVideoDetails net ids) ! k = map (videoData net) ids ! k"
    by simp
  with assms(2) show ?thesis
    by (simp add: fetchVideoDetails_length)
qed

text \<open>
  C6 (as amended). \<open>fetchVideoDetails\<close> returns one video per input id, in the order of
  the input, and never fails. When no lookup of the call throws, failures are isolated
  per id: the entry of an id whose response is not \<open>ok\<close> or carries an \<open>error\<close> is
  the fallback video of that id, and the entry of every other id is its fetched
  metadata. When some lookup of the call throws (\<open>fetch\<close> or \<open>response.json()\<close>
  rejects), every entry is the fallback video of its id. The fallback title is U+52D5
  U+753B followed by the id in \<open> (ID: ...)\<close>, the fallback thumbnail is the fixed
  template around the id.
\<close>

theorem fetchVideoDetails_isolation:
  "length (fetchVideoDetails net ids) = length ids
   \<and> map id' (fetchVideoDetails net ids) = ids
   \<and> ((\<forall>i \<in> set ids. \<not> lookupThrows net i) \<longrightarrow>
        (\<forall>k < length ids.
           (lookupFails net (ids ! k) \<longrightarrow> fetchVideoDetails net ids ! k = defaultData (ids ! k))
           \<and> (\<not> lookupFails net (ids ! k) \<longrightarrow>
                (\<exists>d. net (requestUrl (ids ! k)) = Response True (Body d)
                     \<and> fetchVideoDetails net ids ! k = fetchedData (ids ! k) d))))
   \<and> ((\<exists>i \<in> set ids. lookupThrows net i) \<longrightarrow> fetchVideoDetails net ids = map defaultData ids)
   \<and> title (defaultData i) = [0x52D5, 0x753B] @ js '' (ID: '' @ i @ js '')''
   \<and> thumbnailUrl (defaultData i) = js ''https://i.ytimg.com/vi/'' @ i @ js ''/mqdefault.jpg''"
proof -
  have "fetchVideoDetails net ids ! k = defaultData (ids ! k)"
    if "\<forall>i \<in> set ids. \<not> lookupThrows net i" "k < length ids" "lookupFails net (ids ! k)" for k
  proof -
    from that have "\<not> lookupThrows net (ids ! k)" by simp
    with that(3) have "videoData net (ids ! k) = Some (defaultData (ids ! k))"
      by (intro videoData_fails)
    with fetchVideoDetails_nth [OF that(1,2)] show ?thesis by simp
  qed
  moreover have "\<exists>d. net (requestUrl (ids ! k)) = Response True (Body d)
        \<and> fetchVideoDetails net ids ! k = fetchedData (ids ! k) d"
    if "\<forall>i \<in> set ids. \<not> lookupThrows net i" "k < length ids" "\<not> lookupFails net (ids ! k)" for k
  proof -
    from videoData_succeeds [OF that(3)] obtain d where
      "net (requestUrl (ids ! k)) = Response True (Body d)"
      "videoData net (ids ! k) = Some (fetchedData (ids ! k) d)" by blast
    with fetchVideoDetails_nth [OF that(1,2)] show ?thesis by simp
  qed
  moreover note fetchVideoDetails_throw [of ids net] fetchVideoDetails_ids [of net ids]
    fetchVideoDetails_length [of net ids]
  moreover have "title (defaultData i) = [0x52D5, 0x753B] @ js '' (ID: '' @ i @ js '')''"
    "thumbnailUrl (defaultData i) = js ''https://i.ytimg.com/vi/'' @ i @ js ''/mqdefault.jpg''"
    by (simp_all add: defaultData_def thumbnailTemplate_def)
  ultimately show ?thesis by blast
qed

text \<open>
  C6 as stated fails: with two ids, a network error on the first and a successful
  lookup of the second, the entry of the second is its fallback video and not its
  fetched metadata.
\<close>

theorem fetchVideoDetails_isolation_counterexample:
  "\<not> lookupFails (exampleNetwork ''A'' FetchRejects exampleData) (js ''B'')
   \<and> exampleNetwork ''A'' FetchRejects exampleData (requestUrl (js ''B'')) = Response True (Body exampleData)
   \<and> fetchVideoDetails (exampleNetwork ''A'' FetchRejects exampleData) [js ''A'', js ''B''] ! 1
       = defaultData (js ''B'')
   \<and> defaultData (js ''B'') \<noteq> fetchedData (js ''B'') exampleData"
  by code_simp

text \<open>
  An instance of C6 as amended: a response that is not \<open>ok\<close> for the first id leaves the
  second id its metadata; a network error for the first id makes both entries fallbacks.
\<close>

theorem fetchVideoDetails_isolation_witness:
  "\<not> lookupThrows (exampleNetwork ''A'' (Response False BodyRejects) exampleData) (js ''A'')
   \<and> \<not> lookupThrows (exampleNetwork ''A'' (Response False BodyRejects) exampleData) (js ''B'')
   \<and> lookupFails (exampleNetwork ''A'' (Response False BodyRejects) exampleData) ([js ''A'', js ''B''] ! 0)
   \<and> fetchVideoDetails (exampleNetwork ''A'' (Response False BodyRejects) exampleData) [js ''A'', js ''B''] ! 0
       = defaultData ([js ''A'', js ''B''] ! 0)
   \<and> \<not> lookupFails (exampleNetwork ''A'' (Response False BodyRejects) exampleData) ([js ''A'', js ''B''] ! 1)
   \<and> fetchVideoDetails (exampleNetwork ''A'' (Response False BodyRejects) exampleData) [js ''A'', js ''B''] ! 1
       = fetchedData ([js ''A'', js ''B''] ! 1) exampleData
   \<and> (\<exists>i \<in> set [js ''A'', js ''B'']. lookupThrows (exampleNetwork ''A'' FetchRejects exampleData) i)
   \<and> fetchVideoDetails (exampleNetwork ''A'' FetchRejects exampleData) [js ''A'', js ''B'']
       = map defaultData [js ''A'', js ''B'']"
proof -
  let ?ok = "exampleNetwork ''A'' (Response False BodyRejects) exampleData"
  let ?bad = "exampleNetwork ''A'' FetchRejects exampleData"
  let ?ids = "[js ''A'', js ''B'']"
  have h1: "\<forall>i \<in> set ?ids. \<not> lookupThrows ?ok i"
    by code_simp
  have h2: "lookupFails ?ok (?ids ! 0)" "\<not> lookupFails ?ok (?ids ! 1)"
    by code_simp+
  have h3: "?ok (requestUrl (?ids ! 1)) = Response True (Body exampleData)"
    by code_simp
  have h4: "\<exists>i \<in> set ?ids. lookupThrows ?bad i"
    by code_simp
  have len: "0 < length ?ids" "1 < length ?ids"
    by simp_all
  from h1 fetchVideoDetails_isolation [of ?ok ?ids]
  have per_id: "\<forall>k < length ?ids.
      (lookupFails ?ok (?ids ! k) \<longrightarrow> fetchVideoDetails ?ok ?ids ! k = defaultData (?ids ! k))
      \<and> (\<not> lookupFails ?ok (?ids ! k) \<longrightarrow>
           (\<exists>d. ?ok (requestUrl (?ids ! k)) = Response True (Body d)
                \<and> fetchVideoDetails ?ok ?ids ! k = fetchedData (?ids ! k) d))"
    by blast
  from per_id len(1) h2(1) have r0: "fetchVideoDetails ?ok ?ids ! 0 = defaultData (?ids ! 0)"
    by blast
  from per_id len(2) h2(2) obtain d where
    "?ok (requestUrl (?ids ! 1)) = Response True (Body d)"
    "fetchVideoDetails ?ok ?ids ! 1 = fetchedData (?ids ! 1) d"
    by blast
  with h3 have r1: "fetchVideoDetails ?ok ?ids ! 1 = fetchedData (?ids ! 1) exampleData"
    by simp
  from h4 fetchVideoDetails_isolation [of ?bad ?ids]
  have r2: "fetchVideoDetails ?bad ?ids = map defaultData ?ids"
    by blast
  from h1 have "\<not> lookupThrows ?ok (js ''A'')" and "\<not> lookupThrows ?ok (js ''B'')"
    by simp_all
  with h2 h4 r0 r1 r2 show ?thesis
    by blast
qed

section \<open>Properties of \<open>handleResetUserVideos\<close>\<close>

subsection \<open>The drawn index\<close>

text \<open>
  The product \<open>Math.random() * n\<close> is rounded to a double before \<open>Math.floor\<close> reads it.
  Rounding moves a product \<open>p\<close> up by at most \<open>p / 2 ^ 53\<close>, and a result of \<open>Math.random()\<close>
  is at most \<open>1 - 2 ^ -53\<close>, so the rounded product stays below \<open>n\<close> and the index is in
  range for every length \<open>n > 0\<close>.
\<close>

lemma double_value_range:
  assumes "Math_random u"
  shows "0 \<le> double_value u \<and> double_value u < 1"
proof -
  from assms have "real (mantissa u) < 2 ^ exponent u"
    unfolding Math_random_def by (metis of_nat_less_iff of_nat_numeral of_nat_power)
  then show ?thesis by (simp add: double_value_def)
qed

lemma randomIndex_floor:
  "int (randomIndex u n) = \<lfloor>real (round53 (mantissa u * n)) / 2 ^ exponent u\<rfloor>"
proof -
  have "\<lfloor>real (round53 (mantissa u * n)) / real (2 ^ exponent u)\<rfloor>
      = int (round53 (mantissa u * n) div 2 ^ exponent u)"
    by (simp only: floor_divide_of_nat_eq)
  then show ?thesis by (simp add: randomIndex_def)
qed

lemma bits_0: "bits 0 = 0"
  by (simp add: bits.simps)

lemma bits_pos: "0 < p \<Longrightarrow> bits p = Suc (bits (p div 2))"
  by (subst bits.simps) simp

lemma bits_lower: "0 < p \<Longrightarrow> 2 ^ (bits p - 1) \<le> p"
proof (induction p rule: less_induct)
  case (less p)
  show ?case
  proof (cases "p div 2 = 0")
    case True
    with less.prems show ?thesis by (simp add: bits_pos bits_0)
  next
    case False
    then have pos: "0 < p div 2" by simp
    moreover from less.prems have "p div 2 < p" by simp
    ultimately have ih: "2 ^ (bits (p div 2) - 1) \<le> p div 2"
      by (intro less.IH)
    from pos have "0 < bits (p div 2)" by (simp add: bits_pos)
    then have "bits (p div 2) = Suc (bits (p div 2) - 1)" by simp
    with less.prems have "(2::nat) ^ (bits p - 1) = 2 * 2 ^ (bits (p div 2) - 1)"
      by (simp add: bits_pos [of p] power_Suc [symmetric] del: power_Suc)
    also from ih have "\<dots> \<le> 2 * (p div 2)" by simp
    also have "\<dots> \<le> p" by simp
    finally show ?thesis .
  qed
qed

lemma round53_small: "bits p \<le> 53 \<Longrightarrow> round53 p = p"
  by (simp add: round53_def Let_def)

lemma round53_upper: "2 ^ 53 * round53 p \<le> (2 ^ 53 + 1) * p"
proof (cases "bits p \<le> 53")
  case True
  then show ?thesis by (simp add: round53_small)
next
  case False
  define s where "s = bits p - 53"
  define q where "q = p div 2 ^ s"
  define r where "r = p mod 2 ^ s"
  from False have s: "0 < s" and b: "bits p - 1 = s + 52"
    by (simp_all add: s_def)
  from False have "0 < p" by (cases "p = 0") (simp_all add: bits_0)
  then have "2 ^ (bits p - 1) \<le> p" by (rule bits_lower)
  with b have low: "2 ^ (s + 52) \<le> p" by simp
  have p: "p = q * 2 ^ s + r"
    using div_mult_mod_eq [of p "2 ^ s"] by (simp add: q_def r_def)
  have rlt: "r < 2 ^ s" by (simp add: r_def)
  from s have half: "(2::nat) ^ s = 2 * 2 ^ (s - 1)"
    by (cases s) simp_all
  have "round53 p \<le> p + 2 ^ (s - 1)"
  proof (cases "2 * r < 2 ^ s \<or> (2 * r = 2 ^ s \<and> even q)")
    case True
    then have "round53 p = q * 2 ^ s"
      by (simp add: round53_def Let_def s_def [symmetric] q_def [symmetric] r_def [symmetric]
         )
    with p show ?thesis by simp
  next
    case up: False
    then have "round53 p = (q + 1) * 2 ^ s"
      by (simp add: round53_def Let_def s_def [symmetric] q_def [symmetric] r_def [symmetric]
         )
    moreover from up have "2 ^ s \<le> 2 * r" by auto
    with half have "2 ^ (s - 1) \<le> r" by simp
    ultimately show ?thesis using p half by (simp add: algebra_simps)
  qed
  then have "2 ^ 53 * round53 p \<le> 2 ^ 53 * (p + 2 ^ (s - 1))"
    by simp
  also have "\<dots> = 2 ^ 53 * p + 2 ^ (s + 52)"
    using s by (cases s) (simp_all add: algebra_simps power_add)
  also from low have "\<dots> \<le> 2 ^ 53 * p + p" by simp
  also have "\<dots> = (2 ^ 53 + 1) * p" by (simp add: algebra_simps)
  finally show ?thesis .
qed

lemma unit_double_scaled:
  assumes "Math_random u"
  shows "2 ^ 53 * mantissa u \<le> (2 ^ 53 - 1) * 2 ^ exponent u"
proof (cases "exponent u \<le> 53")
  case True
  then have "(2::nat) ^ exponent u \<le> 2 ^ 53" by (intro power_increasing) simp_all
  moreover from assms have "mantissa u + 1 \<le> 2 ^ exponent u" by (simp add: Math_random_def)
  then have "2 ^ 53 * (mantissa u + 1) \<le> 2 ^ 53 * 2 ^ exponent u" by (intro mult_le_mono2)
  ultimately have "2 ^ 53 * mantissa u + 2 ^ exponent u \<le> 2 ^ 53 * 2 ^ exponent u"
    by (simp add: algebra_simps)
  then show ?thesis by (simp add: algebra_simps)
next
  case False
  then have "(2::nat) ^ 53 \<le> 2 ^ exponent u" by (intro power_increasing) simp_all
  moreover from assms have "mantissa u \<le> 2 ^ 53 - 1" by (simp add: Math_random_def)
  ultimately have "2 ^ 53 * mantissa u \<le> 2 ^ exponent u * (2 ^ 53 - 1)"
    by (intro mult_le_mono)
  then show ?thesis by (simp add: mult.commute)
qed

lemma randomIndex_less:
  assumes "Math_random u" and "0 < n"
  shows "randomIndex u n < n"
proof -
  let ?P = "mantissa u * n" and ?N = "n * 2 ^ exponent u"
  from unit_double_scaled [OF assms(1)]
  have "2 ^ 53 * mantissa u * n \<le> (2 ^ 53 - 1) * 2 ^ exponent u * n"
    by (intro mult_le_mono1)
  then have scaled: "2 ^ 53 * ?P \<le> (2 ^ 53 - 1) * ?N"
    by (simp add: mult.assoc mult.left_commute mult.commute)
  have "2 ^ 53 * (2 ^ 53 * round53 ?P) \<le> 2 ^ 53 * ((2 ^ 53 + 1) * ?P)"
    by (intro mult_le_mono2 round53_upper)
  also have "\<dots> = (2 ^ 53 + 1) * (2 ^ 53 * ?P)"
    by (simp add: mult.left_commute)
  also from scaled have "\<dots> \<le> (2 ^ 53 + 1) * ((2 ^ 53 - 1) * ?N)"
    by (intro mult_le_mono2)
  also have "\<dots> = ((2 ^ 53 + 1) * (2 ^ 53 - 1)) * ?N"
    by (simp add: mult.assoc)
  also have "(2 ^ 53 + 1) * (2 ^ 53 - 1) = (2 ^ 53 * 2 ^ 53 - 1 :: nat)"
    by simp
  finally have "2 ^ 53 * 2 ^ 53 * round53 ?P \<le> (2 ^ 53 * 2 ^ 53 - 1) * ?N"
    by (simp add: mult.assoc)
  moreover from assms(2) have "(2 ^ 53 * 2 ^ 53 - 1) * ?N < 2 ^ 53 * 2 ^ 53 * ?N"
    by simp
  ultimately have "2 ^ 53 * 2 ^ 53 * round53 ?P < 2 ^ 53 * 2 ^ 53 * ?N"
    by (rule le_less_trans)
  then have "round53 ?P < ?N" by simp
  then show ?thesis
    unfolding randomIndex_def by (rule less_mult_imp_div_less)
qed

text \<open>
  Two draws on which the rounding of the product decides the index: the double next
  below \<open>2/3\<close> with the length 3, where the exact product is below 2 and the rounded one
  is 2; and the double \<open>460431910785482 / 2 ^ 53\<close> with the length 313, where the exact
  product is below 16 and the rounded one is 16.
\<close>

lemma randomIndex_two_thirds: "randomIndex (exampleDraw 6004799503160661 53) 3 = 2"
proof -
  have "bits 18014398509481983 = 54"
    by (simp add: bits.simps)
  then have "round53 18014398509481983 = 18014398509481984"
    by (simp add: round53_def Let_def)
  then show ?thesis
    by (simp add: randomIndex_def exampleDraw_def)
qed

lemma randomIndex_313: "randomIndex (exampleDraw 460431910785482 53) 313 = 16"
proof -
  have "bits 144115188075855866 = 57"
    by (simp add: bits.simps)
  then show ?thesis
    by (simp add: randomIndex_def exampleDraw_def round53_def Let_def)
qed

subsection \<open>The reset\<close>

lemma reset_videos:
  "videos (handleResetUserVideos seed u s) = filter (\<lambda>video. id' video \<in> set seed) (videos s)"
  by (simp add: handleResetUserVideos_def Let_def)

lemma reset_favoriteIds:
  "favoriteIds (handleResetUserVideos seed u s) = favoriteIds s"
  by (simp add: handleResetUserVideos_def Let_def)

lemma reset_isModalOpen:
  "isModalOpen (handleResetUserVideos seed u s) = isModalOpen s"
  by (simp add: handleResetUserVideos_def Let_def)

lemma reset_videoId:
  "videoId (handleResetUserVideos seed u s) =
     (if videoId s \<in> set seed then videoId s
      else if seed = [] then [] else seed ! randomIndex u (length seed))"
  by (simp add: handleResetUserVideos_def Let_def)

lemma reset_videoId_seed:
  assumes "Math_random u"
  shows "videoId (handleResetUserVideos seed u s) \<in> set seed
         \<or> (seed = [] \<and> videoId (handleResetUserVideos seed u s) = [])"
proof (cases "videoId s \<in> set seed")
  case True
  then show ?thesis by (simp add: reset_videoId)
next
  case False
  show ?thesis
  proof (cases "seed = []")
    case True
    then show ?thesis by (simp add: reset_videoId)
  next
    case nonempty: False
    then have "randomIndex u (length seed) < length seed"
      using assms by (intro randomIndex_less) simp_all
    then have "seed ! randomIndex u (length seed) \<in> set seed" by simp
    with False nonempty show ?thesis by (simp add: reset_videoId)
  qed
qed

text \<open>
  C3. After \<open>handleResetUserVideos\<close>, for a result \<open>u\<close> of \<open>Math.random()\<close>, the
  selected id is one of \<open>initialVideoIds\<close>, or the empty string when that list is
  empty. A selection that was one of \<open>initialVideoIds\<close> is kept; one that was not is
  replaced by the id drawn from \<open>initialVideoIds\<close>, and then the selection is never the
  id of a video that the reset removed.
\<close>

theorem resetUserVideos_selection:
  assumes "Math_random u"
  shows "(videoId (handleResetUserVideos seed u s) \<in> set seed
          \<or> (seed = [] \<and> videoId (handleResetUserVideos seed u s) = []))
         \<and> (videoId s \<in> set seed \<longrightarrow> videoId (handleResetUserVideos seed u s) = videoId s)
         \<and> (videoId s \<notin> set seed \<longrightarrow> seed \<noteq> [] \<longrightarrow>
              videoId (handleResetUserVideos seed u s) = seed ! randomIndex u (length seed)
              \<and> videoId (handleResetUserVideos seed u s) \<in> set seed
              \<and> videoId (handleResetUserVideos seed u s) \<noteq> videoId s)
         \<and> (seed \<noteq> [] \<longrightarrow>
              (\<forall>v \<in> set (videos s). v \<notin> set (videos (handleResetUserVideos seed u s)) \<longrightarrow>
                 id' v \<noteq> videoId (handleResetUserVideos seed u s)))"
proof -
  note sel = reset_videoId_seed [OF assms, of seed s]
  have removed: "id' v \<noteq> videoId (handleResetUserVideos seed u s)"
    if "seed \<noteq> []" "v \<in> set (videos s)" "v \<notin> set (videos (handleResetUserVideos seed u s))" for v
  proof -
    from that(2,3) have "id' v \<notin> set seed" by (simp add: reset_videos)
    moreover from sel that(1) have "videoId (handleResetUserVideos seed u s) \<in> set seed" by simp
    ultimately show ?thesis by auto
  qed
  have repaired: "videoId (handleResetUserVideos seed u s) = seed ! randomIndex u (length seed)
      \<and> videoId (handleResetUserVideos seed u s) \<in> set seed
      \<and> videoId (handleResetUserVideos seed u s) \<noteq> videoId s"
    if "videoId s \<notin> set seed" "seed \<noteq> []"
  proof -
    from that have e: "videoId (handleResetUserVideos seed u s) = seed ! randomIndex u (length seed)"
      by (simp add: reset_videoId)
    from sel that(2) have m: "videoId (handleResetUserVideos seed u s) \<in> set seed" by simp
    with that(1) have "videoId (handleResetUserVideos seed u s) \<noteq> videoId s" by auto
    with e m show ?thesis by simp
  qed
  have kept: "videoId (handleResetUserVideos seed u s) = videoId s" if "videoId s \<in> set seed"
    using that by (simp add: reset_videoId)
  from sel removed repaired kept show ?thesis by blast
qed

text \<open>
  The example of the specification: ids A, B, C, the collection A, B, C, D and the
  selection D. With the draw 1/2 the reset leaves A, B, C and selects B; with the double
  next below 2/3, whose product with 3 rounds to 2, it selects C.
\<close>

theorem resetUserVideos_selection_witness:
  "Math_random (exampleDraw 1 1)
   \<and> Math_random (exampleDraw 6004799503160661 53)
   \<and> videoId (exampleState [''A'', ''B'', ''C'', ''D''] ''D'' []) \<notin> set [js ''A'', js ''B'', js ''C'']
   \<and> [js ''A'', js ''B'', js ''C''] \<noteq> []
   \<and> videoId (handleResetUserVideos [js ''A'', js ''B'', js ''C''] (exampleDraw 1 1)
        (exampleState [''A'', ''B'', ''C'', ''D''] ''D'' [])) \<in> set [js ''A'', js ''B'', js ''C'']
   \<and> videoId (handleResetUserVideos [js ''A'', js ''B'', js ''C''] (exampleDraw 1 1)
        (exampleState [''A'', ''B'', ''C'', ''D''] ''D'' [])) = js ''B''
   \<and> videoId (handleResetUserVideos [js ''A'', js ''B'', js ''C'']
        (exampleDraw 6004799503160661 53)
        (exampleState [''A'', ''B'', ''C'', ''D''] ''D'' [])) = js ''C''
   \<and> videos (handleResetUserVideos [js ''A'', js ''B'', js ''C''] (exampleDraw 1 1)
        (exampleState [''A'', ''B'', ''C'', ''D''] ''D'' []))
       = [exampleVideo ''A'', exampleVideo ''B'', exampleVideo ''C'']"
proof -
  let ?seed = "[js ''A'', js ''B'', js ''C'']"
  let ?s = "exampleState [''A'', ''B'', ''C'', ''D''] ''D'' []"
  let ?half = "exampleDraw 1 1"
  let ?two_thirds = "exampleDraw 6004799503160661 53"
  have u: "Math_random ?half" "Math_random ?two_thirds"
    by (simp_all add: Math_random_def exampleDraw_def)
  have h: "videoId ?s \<notin> set ?seed" "?seed \<noteq> []"
    by code_simp+
  have len: "length ?seed = 3"
    by simp
  have ih: "randomIndex ?half 3 = 1"
    by (simp add: randomIndex_def round53_def exampleDraw_def bits.simps Let_def)
  have i: "?seed ! randomIndex ?half (length ?seed) = js ''B''"
    by (simp only: len ih) simp
  have j: "?seed ! randomIndex ?two_thirds (length ?seed) = js ''C''"
    by (simp only: len randomIndex_two_thirds) simp
  have v: "videos (handleResetUserVideos ?seed ?half ?s)
      = [exampleVideo ''A'', exampleVideo ''B'', exampleVideo ''C'']"
    unfolding reset_videos by code_simp
  from resetUserVideos_selection [OF u(1), of ?seed ?s] h
  have r1: "videoId (handleResetUserVideos ?seed ?half ?s) = ?seed ! randomIndex ?half (length ?seed)"
    "videoId (handleResetUserVideos ?seed ?half ?s) \<in> set ?seed"
    by blast+
  from resetUserVideos_selection [OF u(2), of ?seed ?s] h
  have r2: "videoId (handleResetUserVideos ?seed ?two_thirds ?s)
      = ?seed ! randomIndex ?two_thirds (length ?seed)"
    by blast
  from r1(1) i have r1': "videoId (handleResetUserVideos ?seed ?half ?s) = js ''B''"
    by (rule trans)
  from r2 j have r2': "videoId (handleResetUserVideos ?seed ?two_thirds ?s) = js ''C''"
    by (rule trans)
  from u h r1(2) r1' r2' v show ?thesis by (intro conjI)
qed

lemma reset_idem:
  assumes "Math_random u"
  shows "handleResetUserVideos seed u' (handleResetUserVideos seed u s) = handleResetUserVideos seed u s"
proof -
  let ?t = "handleResetUserVideos seed u s"
  have v: "videos (handleResetUserVideos seed u' ?t) = videos ?t"
    by (simp add: reset_videos)
  have f: "favoriteIds (handleResetUserVideos seed u' ?t) = favoriteIds ?t"
    by (simp add: reset_favoriteIds)
  have m: "isModalOpen (handleResetUserVideos seed u' ?t) = isModalOpen ?t"
    by (simp add: reset_isModalOpen)
  from reset_videoId_seed [OF assms, of seed s]
  have i: "videoId (handleResetUserVideos seed u' ?t) = videoId ?t"
    by (auto simp: reset_videoId [of seed u' ?t])
  from v f m i show ?thesis by simp
qed

text \<open>
  C4. A second \<open>handleResetUserVideos\<close> right after a first leaves the collection as
  the first left it, namely the videos whose id is in \<open>initialVideoIds\<close>; the second
  run keeps the selection of the first, so the whole state is unchanged, whatever the
  second draw is.
\<close>

theorem resetUserVideos_idempotent:
  "videos (handleResetUserVideos seed u' (handleResetUserVideos seed u s))
     = videos (handleResetUserVideos seed u s)
   \<and> videos (handleResetUserVideos seed u s) = filter (\<lambda>video. id' video \<in> set seed) (videos s)
   \<and> (Math_random u \<longrightarrow>
        videoId (handleResetUserVideos seed u' (handleResetUserVideos seed u s))
          = videoId (handleResetUserVideos seed u s)
        \<and> handleResetUserVideos seed u' (handleResetUserVideos seed u s)
          = handleResetUserVideos seed u s)"
proof -
  have "videos (handleResetUserVideos seed u' (handleResetUserVideos seed u s))
      = videos (handleResetUserVideos seed u s)"
    by (simp add: reset_videos)
  moreover have "handleResetUserVideos seed u' (handleResetUserVideos seed u s)
      = handleResetUserVideos seed u s" if "Math_random u"
    using that by (rule reset_idem)
  ultimately show ?thesis by (simp add: reset_videos)
qed

text \<open>
  An instance of C4 on the example of the specification.
\<close>

theorem resetUserVideos_idempotent_witness:
  "Math_random (exampleDraw 1 1)
   \<and> handleResetUserVideos [js ''A'', js ''B'', js ''C''] (exampleDraw 0 1)
        (handleResetUserVideos [js ''A'', js ''B'', js ''C''] (exampleDraw 1 1)
           (exampleState [''A'', ''B'', ''C'', ''D''] ''D'' []))
      = handleResetUserVideos [js ''A'', js ''B'', js ''C''] (exampleDraw 1 1)
           (exampleState [''A'', ''B'', ''C'', ''D''] ''D'' [])
   \<and> videos (handleResetUserVideos [js ''A'', js ''B'', js ''C''] (exampleDraw 1 1)
           (exampleState [''A'', ''B'', ''C'', ''D''] ''D'' []))
      = [exampleVideo ''A'', exampleVideo ''B'', exampleVideo ''C'']"
proof -
  let ?seed = "[js ''A'', js ''B'', js ''C'']"
  let ?s = "exampleState [''A'', ''B'', ''C'', ''D''] ''D'' []"
  have u: "Math_random (exampleDraw 1 1)"
    by (simp add: Math_random_def exampleDraw_def)
  have v: "filter (\<lambda>video. id' video \<in> set ?seed) (videos ?s)
      = [exampleVideo ''A'', exampleVideo ''B'', exampleVideo ''C'']"
    by code_simp
  from u v resetUserVideos_idempotent [of ?seed "exampleDraw 0 1" "exampleDraw 1 1" ?s]
  show ?thesis by simp
qed

section \<open>Properties of \<open>handleAddVideo\<close>\<close>

lemma first_some_SomeD: "first_some f xs = Some y \<Longrightarrow> \<exists>x \<in> set xs. f x = Some y"
  by (induction xs) (auto split: option.splits)

lemma regex_group1_shape:
  "regex_group1 r = Some i \<Longrightarrow> length i = 11 \<and> list_all idChar i"
  by (auto simp: regex_group1_def split: if_splits)

lemma regex_at_shape: "regex_at s = Some i \<Longrightarrow> length i = 11 \<and> list_all idChar i"
  unfolding regex_at_def by (blast dest: first_some_SomeD regex_group1_shape)

lemma regex_match_shape: "regex_match s = Some i \<Longrightarrow> length i = 11 \<and> list_all idChar i"
proof (induction s rule: regex_match.induct)
  case 1
  then show ?case by (simp add: regex_at_shape)
next
  case (2 c r)
  show ?case
  proof (cases "regex_at (c # r)")
    case None
    with 2 show ?thesis by simp
  next
    case (Some m)
    with "2.prems" have "regex_at (c # r) = Some i" by simp
    then show ?thesis by (rule regex_at_shape)
  qed
qed

lemma extractVideoId_shape:
  "extractVideoId url = Some i \<Longrightarrow> length i = 11 \<and> list_all idChar i"
  unfolding extractVideoId_def by (rule regex_match_shape)

lemma extractVideoId_nonempty: "extractVideoId url = Some i \<Longrightarrow> i \<noteq> []"
proof
  assume "extractVideoId url = Some i" and "i = []"
  then have "length ([] :: js_string) = 11" by (auto dest: extractVideoId_shape)
  then show False by simp
qed

lemma fetchVideoDetails_single: "\<exists>v. fetchVideoDetails net [i] = [v] \<and> id' v = i"
proof -
  have "map id' (fetchVideoDetails net [i]) = [i]" by (rule fetchVideoDetails_ids)
  then show ?thesis by (cases "fetchVideoDetails net [i]") auto
qed

lemma handleAddVideo_invalid:
  "extractVideoId url = None \<Longrightarrow> handleAddVideo net cap url s = (Some InvalidReference, s)"
  by (simp add: handleAddVideo_def)

lemma handleAddVideo_present:
  assumes "extractVideoId url = Some i" and "i \<in> id' ` set (c_videos cap)"
  shows "handleAddVideo net cap url s = (None, handleSelectVideoFromModal (c_videoId cap) i s)"
proof -
  from assms(2) have "list_ex (\<lambda>v. id' v = i) (c_videos cap)"
    by (auto simp: list_ex_iff)
  with assms(1) extractVideoId_nonempty [OF assms(1)] show ?thesis
    by (simp add: handleAddVideo_def)
qed

lemma handleAddVideo_absent:
  assumes "extractVideoId url = Some i" and "i \<notin> id' ` set (c_videos cap)"
    and "fetchVideoDetails net [i] = [v]"
  shows "handleAddVideo net cap url s =
           (None, handleSelectVideoFromModal (c_videoId cap) i (s\<lparr>videos := v # videos s\<rparr>))"
proof -
  from assms(2) have "\<not> list_ex (\<lambda>v. id' v = i) (c_videos cap)"
    by (auto simp: list_ex_iff)
  with assms(1,3) extractVideoId_nonempty [OF assms(1)] show ?thesis
    by (simp add: handleAddVideo_def)
qed

lemma select_videos [simp]: "videos (handleSelectVideoFromModal cur i s) = videos s"
  by (simp add: handleSelectVideoFromModal_def handleSelectNewVideo_def)

lemma select_favoriteIds [simp]: "favoriteIds (handleSelectVideoFromModal cur i s) = favoriteIds s"
  by (simp add: handleSelectVideoFromModal_def handleSelectNewVideo_def)

lemma select_isModalOpen [simp]: "isModalOpen (handleSelectVideoFromModal cur i s) = False"
  by (simp add: handleSelectVideoFromModal_def handleSelectNewVideo_def)

lemma select_videoId:
  "videoId (handleSelectVideoFromModal cur i s) = (if cur \<noteq> i then i else videoId s)"
  by (simp add: handleSelectVideoFromModal_def handleSelectNewVideo_def)

lemma handleAddVideo_cases:
  obtains
    (invalid) "extractVideoId url = None"
      and "handleAddVideo net cap url s = (Some InvalidReference, s)"
  | (present) i where "extractVideoId url = Some i" and "i \<in> id' ` set (c_videos cap)"
      and "handleAddVideo net cap url s = (None, handleSelectVideoFromModal (c_videoId cap) i s)"
  | (absent) i v where "extractVideoId url = Some i" and "i \<notin> id' ` set (c_videos cap)"
      and "fetchVideoDetails net [i] = [v]" and "id' v = i"
      and "handleAddVideo net cap url s =
             (None, handleSelectVideoFromModal (c_videoId cap) i (s\<lparr>videos := v # videos s\<rparr>))"
proof (cases "extractVideoId url")
  case None
  then show ?thesis using invalid handleAddVideo_invalid by blast
next
  case (Some i)
  show ?thesis
  proof (cases "i \<in> id' ` set (c_videos cap)")
    case True
    with Some show ?thesis using present handleAddVideo_present by blast
  next
    case False
    obtain v where "fetchVideoDetails net [i] = [v]" and "id' v = i"
      using fetchVideoDetails_single by blast
    with Some False show ?thesis using absent handleAddVideo_absent by blast
  qed
qed

lemma handleAddVideo_error_unchanged:
  "fst (handleAddVideo net cap url s) \<noteq> None \<Longrightarrow> snd (handleAddVideo net cap url s) = s"
  by (rule handleAddVideo_cases [where url = url and net = net and cap = cap and s = s]) simp_all

lemma handleAddVideo_error_kind:
  "fst (handleAddVideo net cap url s) \<noteq> None \<Longrightarrow>
     fst (handleAddVideo net cap url s) = Some InvalidReference \<and> extractVideoId url = None"
  by (rule handleAddVideo_cases [where url = url and net = net and cap = cap and s = s]) simp_all

lemma handleAddVideo_favoriteIds:
  "favoriteIds (snd (handleAddVideo net cap url s)) = favoriteIds s"
  by (rule handleAddVideo_cases [where url = url and net = net and cap = cap and s = s]) simp_all

text \<open>
  C7. When the text holds no video id, \<open>handleAddVideo\<close> throws the invalid-reference
  error and leaves the state as it was. More generally, whenever \<open>handleAddVideo\<close>
  throws, the collection, the favorite ids and the selection are unchanged; the only
  error it can throw is the invalid-reference one, since \<open>fetchVideoDetails\<close> always
  returns a video for the id.
\<close>

theorem addVideo_invalid_atomic:
  "(extractVideoId url = None \<longrightarrow> handleAddVideo net cap url s = (Some InvalidReference, s))
   \<and> (fst (handleAddVideo net cap url s) \<noteq> None \<longrightarrow>
        extractVideoId url = None
        \<and> fst (handleAddVideo net cap url s) = Some InvalidReference
        \<and> videos (snd (handleAddVideo net cap url s)) = videos s
        \<and> favoriteIds (snd (handleAddVideo net cap url s)) = favoriteIds s
        \<and> videoId (snd (handleAddVideo net cap url s)) = videoId s
        \<and> snd (handleAddVideo net cap url s) = s)"
proof (intro conjI impI)
  assume "extractVideoId url = None"
  then show "handleAddVideo net cap url s = (Some InvalidReference, s)"
    by (rule handleAddVideo_invalid)
next
  assume e: "fst (handleAddVideo net cap url s) \<noteq> None"
  from handleAddVideo_error_kind [OF e]
  show "extractVideoId url = None" and "fst (handleAddVideo net cap url s) = Some InvalidReference"
    by blast+
  from handleAddVideo_error_unchanged [OF e]
  show "snd (handleAddVideo net cap url s) = s" .
  then show "videos (snd (handleAddVideo net cap url s)) = videos s"
    and "favoriteIds (snd (handleAddVideo net cap url s)) = favoriteIds s"
    and "videoId (snd (handleAddVideo net cap url s)) = videoId s"
    by simp_all
qed

text \<open>
  An instance of C7: the text \<open>not a url\<close> holds no video id, and adding it changes
  nothing.
\<close>

theorem addVideo_invalid_atomic_witness:
  "extractVideoId (js ''not a url'') = None
   \<and> handleAddVideo (exampleNetwork ''A'' FetchRejects exampleData)
        (rendered (exampleState [''A'', ''B''] ''A'' [''B''])) (js ''not a url'')
        (exampleState [''A'', ''B''] ''A'' [''B''])
      = (Some InvalidReference, exampleState [''A'', ''B''] ''A'' [''B''])
   \<and> fst (handleAddVideo (exampleNetwork ''A'' FetchRejects exampleData)
        (rendered (exampleState [''A'', ''B''] ''A'' [''B''])) (js ''not a url'')
        (exampleState [''A'', ''B''] ''A'' [''B''])) \<noteq> None
   \<and> snd (handleAddVideo (exampleNetwork ''A'' FetchRejects exampleData)
        (rendered (exampleState [''A'', ''B''] ''A'' [''B''])) (js ''not a url'')
        (exampleState [''A'', ''B''] ''A'' [''B'']))
      = exampleState [''A'', ''B''] ''A'' [''B'']"
proof -
  let ?net = "exampleNetwork ''A'' FetchRejects exampleData"
  let ?s = "exampleState [''A'', ''B''] ''A'' [''B'']"
  have h: "extractVideoId (js ''not a url'') = None"
    by code_simp
  with addVideo_invalid_atomic [of "js ''not a url''" ?net "rendered ?s" ?s]
  have r: "handleAddVideo ?net (rendered ?s) (js ''not a url'') ?s = (Some InvalidReference, ?s)"
    by blast
  then have e: "fst (handleAddVideo ?net (rendered ?s) (js ''not a url'') ?s) \<noteq> None"
    by (simp only: fst_conv) simp
  with addVideo_invalid_atomic [of "js ''not a url''" ?net "rendered ?s" ?s]
  have "snd (handleAddVideo ?net (rendered ?s) (js ''not a url'') ?s) = ?s"
    by blast
  with h r e show ?thesis by blast
qed

lemma distinct_count_one:
  "distinct (map f xs) \<Longrightarrow> y \<in> f ` set xs \<Longrightarrow> length (filter (\<lambda>v. f v = y) xs) = 1"
proof (induction xs)
  case Nil
  then show ?case by simp
next
  case (Cons x xs)
  show ?case
  proof (cases "f x = y")
    case True
    with Cons.prems have "y \<notin> f ` set xs" by auto
    then have "filter (\<lambda>v. f v = y) xs = []" by (auto simp: filter_empty_conv)
    with True show ?thesis by simp
  next
    case False
    with Cons show ?thesis by auto
  qed
qed

lemma select_fresh:
  "videoId s = i \<Longrightarrow> isModalOpen s = False \<Longrightarrow> handleSelectVideoFromModal cur i s = s"
  by (auto simp: handleSelectVideoFromModal_def handleSelectNewVideo_def)

lemma rendered_videos: "c_videos (rendered s) = videos s"
  by (simp add: rendered_def)

lemma rendered_videoId: "c_videoId (rendered s) = videoId s"
  by (simp add: rendered_def)

text \<open>
  Two calls of \<open>handleAddVideo\<close> in a row with a text that holds the id \<open>i\<close>, when each
  call was created by a render of the collection it acts on and nothing else changes the
  state in between: the second call inserts nothing, and the id is in the collection
  once when it was absent before or the ids were distinct. With the \<open>videoId\<close> of its
  render the first call selects \<open>i\<close>.
\<close>

lemma addVideo_twice_fresh:
  assumes url: "extractVideoId url = Some i"
    and cap1: "c_videos cap1 = videos s0"
    and s1: "s1 = snd (handleAddVideo net1 cap1 url s0)"
    and cap2: "c_videos cap2 = videos s1"
    and s2: "s2 = snd (handleAddVideo net2 cap2 url s1)"
  shows "fst (handleAddVideo net1 cap1 url s0) = None
     \<and> fst (handleAddVideo net2 cap2 url s1) = None
     \<and> videos s2 = videos s1
     \<and> i \<in> id' ` set (videos s2)
     \<and> (i \<in> id' ` set (videos s0) \<longrightarrow> videos s1 = videos s0)
     \<and> (i \<notin> id' ` set (videos s0) \<longrightarrow>
          (\<exists>v. fetchVideoDetails net1 [i] = [v] \<and> id' v = i \<and> videos s1 = v # videos s0)
          \<and> length (filter (\<lambda>v. id' v = i) (videos s2)) = 1)
     \<and> (distinct (map id' (videos s0)) \<longrightarrow>
          distinct (map id' (videos s1)) \<and> distinct (map id' (videos s2))
          \<and> length (filter (\<lambda>v. id' v = i) (videos s2)) = 1)
     \<and> (c_videoId cap1 = videoId s0 \<longrightarrow> videoId s1 = i \<and> s2 = s1)"
proof -
  have first: "fst (handleAddVideo net1 cap1 url s0) = None
      \<and> isModalOpen s1 = False
      \<and> (c_videoId cap1 = videoId s0 \<longrightarrow> videoId s1 = i)
      \<and> i \<in> id' ` set (videos s1)
      \<and> (i \<in> id' ` set (videos s0) \<longrightarrow> videos s1 = videos s0)
      \<and> (i \<notin> id' ` set (videos s0) \<longrightarrow>
           (\<exists>v. fetchVideoDetails net1 [i] = [v] \<and> id' v = i \<and> videos s1 = v # videos s0))"
  proof (rule handleAddVideo_cases [where url = url and net = net1 and cap = cap1 and s = s0])
    assume "extractVideoId url = None"
    with url show ?thesis by simp
  next
    fix j
    assume j: "extractVideoId url = Some j" "j \<in> id' ` set (c_videos cap1)"
      and r: "handleAddVideo net1 cap1 url s0 = (None, handleSelectVideoFromModal (c_videoId cap1) j s0)"
    from j url have "j = i" by simp
    with j r cap1 s1 show ?thesis by (simp add: select_videoId)
  next
    fix j v
    assume j: "extractVideoId url = Some j" "j \<notin> id' ` set (c_videos cap1)"
      and v: "fetchVideoDetails net1 [j] = [v]" "id' v = j"
      and r: "handleAddVideo net1 cap1 url s0 =
          (None, handleSelectVideoFromModal (c_videoId cap1) j (s0\<lparr>videos := v # videos s0\<rparr>))"
    from j url have "j = i" by simp
    with j v r cap1 s1 show ?thesis by (simp add: select_videoId)
  qed
  then have present: "i \<in> id' ` set (c_videos cap2)"
    using cap2 by simp
  from handleAddVideo_present [OF url present]
  have second: "handleAddVideo net2 cap2 url s1 = (None, handleSelectVideoFromModal (c_videoId cap2) i s1)" .
  then have v2: "videos s2 = videos s1" and e2: "fst (handleAddVideo net2 cap2 url s1) = None"
    using s2 by simp_all
  have same: "s2 = s1" if "c_videoId cap1 = videoId s0"
  proof -
    from first that have "videoId s1 = i" "isModalOpen s1 = False" by simp_all
    then have "handleSelectVideoFromModal (c_videoId cap2) i s1 = s1" by (rule select_fresh)
    with second s2 show ?thesis by simp
  qed
  have d: "distinct (map id' (videos s1))" if "distinct (map id' (videos s0))"
  proof (cases "i \<in> id' ` set (videos s0)")
    case True
    with first that show ?thesis by simp
  next
    case False
    with first obtain v where "id' v = i" "videos s1 = v # videos s0" by blast
    with False that show ?thesis by simp
  qed
  have one: "length (filter (\<lambda>v. id' v = i) (videos s2)) = 1" if "distinct (map id' (videos s1))"
    using that first v2 by (simp add: distinct_count_one)
  have one': "length (filter (\<lambda>v. id' v = i) (videos s2)) = 1" if "i \<notin> id' ` set (videos s0)"
  proof -
    from first that obtain v where v: "id' v = i" "videos s1 = v # videos s0" by blast
    from that have "filter (\<lambda>v. id' v = i) (videos s0) = []" by (auto simp: filter_empty_conv)
    with v v2 show ?thesis by simp
  qed
  from first e2 v2 same d one one' show ?thesis by simp
qed

text \<open>
  C5 does not hold of \<open>handleAddVideo\<close>: the call tests the \<open>videos\<close> and the \<open>videoId\<close> that
  its render captured, and it sets the current state.
  \<^item> The call is created at mount, when \<open>videos\<close> is empty, with the URL of the seed
    video \<open>abcdefghijk\<close>; the seed load installs the collection \<open>abcdefghijk\<close>, \<open>A\<close> while
    the metadata is awaited. The call prepends a second entry for the id, and a second
    call with the same URL, created by the render that followed, leaves both entries.
  \<^item> The collection holds \<open>abcdefghijk\<close> and \<open>A\<close>; the call was created when
    \<open>abcdefghijk\<close> was selected, and \<open>A\<close> has been selected since. Adding the URL of
    \<open>abcdefghijk\<close> closes the dialog and leaves \<open>A\<close> selected.
\<close>

theorem addVideo_twice_stale:
  "extractVideoId (js ''https://youtu.be/abcdefghijk'') = Some (js ''abcdefghijk'')
   \<and> fst (handleAddVideo (exampleNetwork ''A'' FetchRejects exampleData)
          (exampleCapture [] ''A'') (js ''https://youtu.be/abcdefghijk'')
          (exampleState [''abcdefghijk'', ''A''] ''A'' [])) = None
   \<and> map id' (videos (snd (handleAddVideo (exampleNetwork ''A'' FetchRejects exampleData)
          (exampleCapture [] ''A'') (js ''https://youtu.be/abcdefghijk'')
          (exampleState [''abcdefghijk'', ''A''] ''A'' []))))
       = [js ''abcdefghijk'', js ''abcdefghijk'', js ''A'']
   \<and> map id' (videos (snd (handleAddVideo (exampleNetwork ''A'' FetchRejects exampleData)
          (rendered (snd (handleAddVideo (exampleNetwork ''A'' FetchRejects exampleData)
             (exampleCapture [] ''A'') (js ''https://youtu.be/abcdefghijk'')
             (exampleState [''abcdefghijk'', ''A''] ''A'' []))))
          (js ''https://youtu.be/abcdefghijk'')
          (snd (handleAddVideo (exampleNetwork ''A'' FetchRejects exampleData)
             (exampleCapture [] ''A'') (js ''https://youtu.be/abcdefghijk'')
             (exampleState [''abcdefghijk'', ''A''] ''A'' []))))))
       = [js ''abcdefghijk'', js ''abcdefghijk'', js ''A'']
   \<and> handleAddVideo (exampleNetwork ''A'' FetchRejects exampleData)
          (exampleCapture [''abcdefghijk'', ''A''] ''abcdefghijk'')
          (js ''https://youtu.be/abcdefghijk'')
          (exampleState [''abcdefghijk'', ''A''] ''A'' [])
       = (None, (exampleState [''abcdefghijk'', ''A''] ''A'' [])\<lparr>isModalOpen := False\<rparr>)
   \<and> videoId (snd (handleAddVideo (exampleNetwork ''A'' FetchRejects exampleData)
          (exampleCapture [''abcdefghijk'', ''A''] ''abcdefghijk'')
          (js ''https://youtu.be/abcdefghijk'')
          (exampleState [''abcdefghijk'', ''A''] ''A'' []))) = js ''A''"
  by code_simp

subsection \<open>Favorites across a reset\<close>

lemma handleAddVideo_member:
  assumes "extractVideoId url = Some i" and "c_videos cap = videos s"
  shows "i \<in> id' ` set (videos (snd (handleAddVideo net cap url s)))"
proof (rule handleAddVideo_cases [where url = url and net = net and cap = cap and s = s])
  assume "extractVideoId url = None"
  with assms show ?thesis by simp
next
  fix j
  assume "extractVideoId url = Some j" "j \<in> id' ` set (c_videos cap)"
    and "handleAddVideo net cap url s = (None, handleSelectVideoFromModal (c_videoId cap) j s)"
  with assms show ?thesis by simp
next
  fix j v
  assume "extractVideoId url = Some j" "id' v = j"
    and "handleAddVideo net cap url s =
        (None, handleSelectVideoFromModal (c_videoId cap) j (s\<lparr>videos := v # videos s\<rparr>))"
  with assms show ?thesis by simp
qed

lemma reset_view_ids:
  "map id' (favoriteVideos (videos (handleResetUserVideos seed u s))
             (favoriteIds (handleResetUserVideos seed u s)))
     = filter (\<lambda>i. i \<in> set seed \<and> i \<in> id' ` set (videos s)) (favoriteIds s)"
proof -
  have "id' ` set (filter (\<lambda>video. id' video \<in> set seed) (videos s))
      = {i. i \<in> set seed \<and> i \<in> id' ` set (videos s)}"
    by auto
  then show ?thesis
    by (simp add: favoriteVideos_ids reset_videos reset_favoriteIds)
qed

text \<open>
  C10. \<open>handleResetUserVideos\<close> leaves \<open>favoriteIds\<close> as it is. After it, the
  favorites view shows the favorite ids that are in \<open>initialVideoIds\<close> and in the
  collection. A favorite id that is not in \<open>initialVideoIds\<close> is therefore not in the
  view after the reset, and it is in the view again once a text with that id has been
  added.
\<close>

theorem resetUserVideos_keeps_favorites:
  "favoriteIds (handleResetUserVideos seed u s) = favoriteIds s
   \<and> map id' (favoriteVideos (videos (handleResetUserVideos seed u s))
                (favoriteIds (handleResetUserVideos seed u s)))
       = filter (\<lambda>i. i \<in> set seed \<and> i \<in> id' ` set (videos s)) (favoriteIds s)
   \<and> (i \<in> set (favoriteIds s) \<and> i \<notin> set seed \<and> extractVideoId url = Some i
        \<and> c_videos cap = videos (handleResetUserVideos seed u s) \<longrightarrow>
        i \<notin> id' ` set (favoriteVideos (videos (handleResetUserVideos seed u s))
                           (favoriteIds (handleResetUserVideos seed u s)))
        \<and> i \<in> id' ` set (favoriteVideos
               (videos (snd (handleAddVideo net cap url (handleResetUserVideos seed u s))))
               (favoriteIds (snd (handleAddVideo net cap url (handleResetUserVideos seed u s))))))"
proof -
  let ?r = "handleResetUserVideos seed u s"
  let ?a = "snd (handleAddVideo net cap url ?r)"
  have gone: "i \<notin> id' ` set (favoriteVideos (videos ?r) (favoriteIds ?r))" if "i \<notin> set seed"
  proof -
    have "i \<notin> set (map id' (favoriteVideos (videos ?r) (favoriteIds ?r)))"
      unfolding reset_view_ids using that by simp
    then show ?thesis by simp
  qed
  have again: "i \<in> id' ` set (favoriteVideos (videos ?a) (favoriteIds ?a))"
    if "i \<in> set (favoriteIds s)" "extractVideoId url = Some i" "c_videos cap = videos ?r"
  proof -
    from that(2,3) have "i \<in> id' ` set (videos ?a)" by (rule handleAddVideo_member)
    moreover have "favoriteIds ?a = favoriteIds s"
      by (simp add: handleAddVideo_favoriteIds reset_favoriteIds)
    ultimately have "i \<in> set (map id' (favoriteVideos (videos ?a) (favoriteIds ?a)))"
      unfolding favoriteVideos_ids using that(1) by simp
    then show ?thesis by simp
  qed
  from gone again reset_view_ids [of seed u s] reset_favoriteIds [of seed u s]
  show ?thesis by blast
qed

text \<open>
  An instance of C10: the favorite abcdefghijk, added by the user, leaves the view at the
  reset and returns when its URL is added again.
\<close>

theorem resetUserVideos_keeps_favorites_witness:
  "js ''abcdefghijk'' \<in> set (favoriteIds (exampleState [''abcdefghijk'', ''A''] ''A'' [''abcdefghijk'', ''A'']))
   \<and> js ''abcdefghijk'' \<notin> set [js ''A'']
   \<and> extractVideoId (js ''https://youtu.be/abcdefghijk'') = Some (js ''abcdefghijk'')
   \<and> favoriteIds (handleResetUserVideos [js ''A''] (exampleDraw 0 1)
          (exampleState [''abcdefghijk'', ''A''] ''A'' [''abcdefghijk'', ''A'']))
       = [js ''abcdefghijk'', js ''A'']
   \<and> map id' (favoriteVideos
          (videos (handleResetUserVideos [js ''A''] (exampleDraw 0 1)
             (exampleState [''abcdefghijk'', ''A''] ''A'' [''abcdefghijk'', ''A''])))
          (favoriteIds (handleResetUserVideos [js ''A''] (exampleDraw 0 1)
             (exampleState [''abcdefghijk'', ''A''] ''A'' [''abcdefghijk'', ''A'']))))
       = [js ''A'']
   \<and> js ''abcdefghijk'' \<in> id' ` set (favoriteVideos
          (videos (snd (handleAddVideo (exampleNetwork ''A'' FetchRejects exampleData)
             (rendered (handleResetUserVideos [js ''A''] (exampleDraw 0 1)
                (exampleState [''abcdefghijk'', ''A''] ''A'' [''abcdefghijk'', ''A''])))
             (js ''https://youtu.be/abcdefghijk'')
             (handleResetUserVideos [js ''A''] (exampleDraw 0 1)
                (exampleState [''abcdefghijk'', ''A''] ''A'' [''abcdefghijk'', ''A''])))))
          (favoriteIds (snd (handleAddVideo (exampleNetwork ''A'' FetchRejects exampleData)
             (rendered (handleResetUserVideos [js ''A''] (exampleDraw 0 1)
                (exampleState [''abcdefghijk'', ''A''] ''A'' [''abcdefghijk'', ''A''])))
             (js ''https://youtu.be/abcdefghijk'')
             (handleResetUserVideos [js ''A''] (exampleDraw 0 1)
                (exampleState [''abcdefghijk'', ''A''] ''A'' [''abcdefghijk'', ''A'']))))))"
proof -
  let ?url = "js ''https://youtu.be/abcdefghijk''"
  let ?i = "js ''abcdefghijk''"
  let ?net = "exampleNetwork ''A'' FetchRejects exampleData"
  let ?s = "exampleState [''abcdefghijk'', ''A''] ''A'' [''abcdefghijk'', ''A'']"
  let ?r = "handleResetUserVideos [js ''A''] (exampleDraw 0 1) ?s"
  have url: "extractVideoId ?url = Some ?i"
    by code_simp
  have h: "?i \<in> set (favoriteIds ?s)" "?i \<notin> set [js ''A'']"
    by code_simp+
  have f: "favoriteIds ?s = [?i, js ''A'']"
    "filter (\<lambda>i. i \<in> set [js ''A''] \<and> i \<in> id' ` set (videos ?s)) (favoriteIds ?s) = [js ''A'']"
    by code_simp+
  note T = resetUserVideos_keeps_favorites [of "[js ''A'']" "exampleDraw 0 1" ?s ?i ?url "rendered ?r" ?net]
  from T have "favoriteIds ?r = favoriteIds ?s"
    by (rule conjunct1)
  from this f(1) have a1: "favoriteIds ?r = [?i, js ''A'']"
    by (rule trans)
  from T have "map id' (favoriteVideos (videos ?r) (favoriteIds ?r))
      = filter (\<lambda>i. i \<in> set [js ''A''] \<and> i \<in> id' ` set (videos ?s)) (favoriteIds ?s)"
    by blast
  from this f(2) have a2: "map id' (favoriteVideos (videos ?r) (favoriteIds ?r)) = [js ''A'']"
    by (rule trans)
  note a = a1 a2
  from T h url rendered_videos [of ?r]
  have b: "?i \<in> id' ` set (favoriteVideos
      (videos (snd (handleAddVideo ?net (rendered ?r) ?url ?r)))
      (favoriteIds (snd (handleAddVideo ?net (rendered ?r) ?url ?r))))"
    by blast
  from h url a b show ?thesis by blast
qed

section \<open>Properties of \<open>handleFeelingLucky\<close>\<close>

text \<open>
  \<open>handleFeelingLucky\<close> returns at once, with the state unchanged, for a collection of at
  most one video. Otherwise its loop returns at the first draw whose video has an id
  other than the selected one, and it selects that id; as long as the draws keep landing
  on the selected id the loop goes on.
\<close>

lemma pickOther_hit:
  "id' (vs ! randomIndex (rnd k) (length vs)) \<noteq> cur \<Longrightarrow>
     pickOther rnd vs cur k = Some (id' (vs ! randomIndex (rnd k) (length vs)))"
  by (subst pickOther.simps) (simp add: Let_def)

lemma pickOther_miss:
  "id' (vs ! randomIndex (rnd k) (length vs)) = cur \<Longrightarrow>
     pickOther rnd vs cur k = pickOther rnd vs cur (Suc k)"
  by (subst pickOther.simps) (simp add: Let_def)

lemma pickOther_first:
  assumes "id' (vs ! randomIndex (rnd m) (length vs)) \<noteq> cur"
    and "\<forall>j. k \<le> j \<and> j < m \<longrightarrow> id' (vs ! randomIndex (rnd j) (length vs)) = cur"
    and "k \<le> m"
  shows "pickOther rnd vs cur k = Some (id' (vs ! randomIndex (rnd m) (length vs)))"
  using assms
proof (induction "m - k" arbitrary: k)
  case 0
  then have "k = m" by simp
  with "0.prems"(1) show ?case by (simp add: pickOther_hit)
next
  case (Suc d)
  then have "k < m" by simp
  with Suc.prems(2) have "id' (vs ! randomIndex (rnd k) (length vs)) = cur" by simp
  then have "pickOther rnd vs cur k = pickOther rnd vs cur (Suc k)"
    by (rule pickOther_miss)
  also have "\<dots> = Some (id' (vs ! randomIndex (rnd m) (length vs)))"
  proof (rule Suc.hyps(1))
    show "d = m - Suc k" using Suc.hyps(2) by simp
    show "id' (vs ! randomIndex (rnd m) (length vs)) \<noteq> cur" by (rule Suc.prems(1))
    show "\<forall>j. Suc k \<le> j \<and> j < m \<longrightarrow> id' (vs ! randomIndex (rnd j) (length vs)) = cur"
      using Suc.prems(2) by simp
    show "Suc k \<le> m" using \<open>k < m\<close> by simp
  qed
  finally show ?case .
qed

lemma pickOther_Some_differs:
  "pickOther rnd vs cur k = Some y \<Longrightarrow>
     y \<noteq> cur \<and> (\<exists>m. k \<le> m \<and> y = id' (vs ! randomIndex (rnd m) (length vs)))"
proof (rule pickOther.raw_induct
    [where P = "\<lambda>rnd vs cur k y.
       y \<noteq> cur \<and> (\<exists>m. k \<le> m \<and> y = id' (vs ! randomIndex (rnd m) (length vs)))"])
  fix pick :: "(nat \<Rightarrow> unit_double) \<Rightarrow> Video list \<Rightarrow> js_string \<Rightarrow> nat \<Rightarrow> js_string option"
  fix rnd vs cur k y
  assume IH: "\<And>rnd vs cur k y. pick rnd vs cur k = Some y \<Longrightarrow>
      y \<noteq> cur \<and> (\<exists>m. k \<le> m \<and> y = id' (vs ! randomIndex (rnd m) (length vs)))"
    and body: "(let newVideoId = id' (vs ! randomIndex (rnd k) (length vs))
        in if newVideoId = cur then pick rnd vs cur (Suc k) else Some newVideoId) = Some y"
  show "y \<noteq> cur \<and> (\<exists>m. k \<le> m \<and> y = id' (vs ! randomIndex (rnd m) (length vs)))"
  proof (cases "id' (vs ! randomIndex (rnd k) (length vs)) = cur")
    case True
    with body have "pick rnd vs cur (Suc k) = Some y" by (simp add: Let_def)
    from IH [OF this] obtain m where "y \<noteq> cur" "Suc k \<le> m"
      "y = id' (vs ! randomIndex (rnd m) (length vs))" by blast
    then have "y \<noteq> cur \<and> k \<le> m \<and> y = id' (vs ! randomIndex (rnd m) (length vs))" by simp
    then show ?thesis by blast
  next
    case False
    with body have "y = id' (vs ! randomIndex (rnd k) (length vs))" by (simp add: Let_def)
    with False show ?thesis by blast
  qed
qed

lemma pickOther_stuck:
  assumes "\<forall>j. id' (vs ! randomIndex (rnd j) (length vs)) = cur"
  shows "pickOther rnd vs cur k = None"
proof (cases "pickOther rnd vs cur k")
  case None
  then show ?thesis .
next
  case (Some y)
  from pickOther_Some_differs [OF this] assms show ?thesis by auto
qed

lemma pickOther_never:
  assumes "\<forall>v \<in> set vs. id' v = cur" and "vs \<noteq> []"
    and "\<forall>k. Math_random (rnd k)"
  shows "pickOther rnd vs cur k = None"
proof (rule pickOther_stuck, rule allI)
  fix j
  from assms(2,3) have "randomIndex (rnd j) (length vs) < length vs"
    by (intro randomIndex_less) simp_all
  then have "vs ! randomIndex (rnd j) (length vs) \<in> set vs" by simp
  with assms(1) show "id' (vs ! randomIndex (rnd j) (length vs)) = cur" by simp
qed

lemma pickOther_terminates:
  assumes "\<exists>k. id' (vs ! randomIndex (rnd k) (length vs)) \<noteq> cur"
  shows "\<exists>m. id' (vs ! randomIndex (rnd m) (length vs)) \<noteq> cur
           \<and> pickOther rnd vs cur 0 = Some (id' (vs ! randomIndex (rnd m) (length vs)))"
proof -
  define m where "m = (LEAST k. id' (vs ! randomIndex (rnd k) (length vs)) \<noteq> cur)"
  from assms have hit: "id' (vs ! randomIndex (rnd m) (length vs)) \<noteq> cur"
    unfolding m_def by (rule LeastI_ex)
  have "id' (vs ! randomIndex (rnd j) (length vs)) = cur" if "j < m" for j
    using that not_less_Least unfolding m_def by blast
  then have "pickOther rnd vs cur 0 = Some (id' (vs ! randomIndex (rnd m) (length vs)))"
    using hit by (intro pickOther_first) simp_all
  with hit show ?thesis by blast
qed

lemma distinct_other:
  assumes "distinct (map id' vs)" and "1 < length vs"
  shows "\<exists>v \<in> set vs. id' v \<noteq> cur"
proof (rule ccontr)
  assume "\<not> (\<exists>v \<in> set vs. id' v \<noteq> cur)"
  then have same: "\<forall>v \<in> set vs. id' v = cur" by simp
  from assms(2) have len: "0 < length vs" "1 < length vs" by linarith+
  then have "vs ! 0 \<in> set vs" "vs ! 1 \<in> set vs" by (simp_all only: nth_mem)
  with same have "id' (vs ! 0) = id' (vs ! 1)" by simp
  with len have "map id' vs ! 0 = map id' vs ! 1" by simp
  moreover have "map id' vs ! 0 \<noteq> map id' vs ! 1"
  proof -
    have "0 < length (map id' vs)" "1 < length (map id' vs)" "(0::nat) \<noteq> 1"
      using len by simp_all
    with assms(1) show ?thesis
      unfolding distinct_conv_nth by blast
  qed
  ultimately show False by simp
qed

lemma select_other: "i \<noteq> videoId s \<Longrightarrow> handleSelectNewVideo (videoId s) i s = s\<lparr>videoId := i\<rparr>"
  by (simp add: handleSelectNewVideo_def)

lemma lucky_small: "length (videos s) \<le> 1 \<Longrightarrow> handleFeelingLucky rnd s = Some s"
  by (simp add: handleFeelingLucky_def)

lemma lucky_first:
  assumes "1 < length (videos s)"
    and "id' (videos s ! randomIndex (rnd m) (length (videos s))) \<noteq> videoId s"
    and "\<forall>j<m. id' (videos s ! randomIndex (rnd j) (length (videos s))) = videoId s"
  shows "handleFeelingLucky rnd s =
           Some (s\<lparr>videoId := id' (videos s ! randomIndex (rnd m) (length (videos s)))\<rparr>)"
proof -
  from assms(2,3)
  have "pickOther rnd (videos s) (videoId s) 0
      = Some (id' (videos s ! randomIndex (rnd m) (length (videos s))))"
    by (intro pickOther_first) simp_all
  with assms(1,2) show ?thesis
    by (simp add: handleFeelingLucky_def select_other)
qed

lemma lucky_terminates:
  assumes "1 < length (videos s)" and "\<forall>k. Math_random (rnd k)"
    and "\<exists>k. id' (videos s ! randomIndex (rnd k) (length (videos s))) \<noteq> videoId s"
  shows "\<exists>i. handleFeelingLucky rnd s = Some (s\<lparr>videoId := i\<rparr>) \<and> i \<noteq> videoId s
            \<and> i \<in> id' ` set (videos s)"
proof -
  from pickOther_terminates [OF assms(3)] obtain m where
    m: "id' (videos s ! randomIndex (rnd m) (length (videos s))) \<noteq> videoId s"
    and p: "pickOther rnd (videos s) (videoId s) 0
        = Some (id' (videos s ! randomIndex (rnd m) (length (videos s))))"
    by blast
  from assms(1) have "0 < length (videos s)" by linarith
  with assms(2) have "randomIndex (rnd m) (length (videos s)) < length (videos s)"
    by (intro randomIndex_less) simp_all
  then have "id' (videos s ! randomIndex (rnd m) (length (videos s))) \<in> id' ` set (videos s)"
    by simp
  moreover from assms(1) m p
  have "handleFeelingLucky rnd s
      = Some (s\<lparr>videoId := id' (videos s ! randomIndex (rnd m) (length (videos s)))\<rparr>)"
    by (simp add: handleFeelingLucky_def select_other)
  ultimately show ?thesis using m by blast
qed

lemma lucky_never:
  assumes "1 < length (videos s)" and "\<forall>v \<in> set (videos s). id' v = videoId s"
    and "\<forall>k. Math_random (rnd k)"
  shows "handleFeelingLucky rnd s = None"
proof -
  from assms(1) have "videos s \<noteq> []" by auto
  with assms(2,3) have "pickOther rnd (videos s) (videoId s) 0 = None"
    by (intro pickOther_never) simp_all
  with assms(1) show ?thesis by (simp add: handleFeelingLucky_def)
qed

lemma lucky_stuck:
  assumes "1 < length (videos s)"
    and "\<forall>k. id' (videos s ! randomIndex (rnd k) (length (videos s))) = videoId s"
  shows "handleFeelingLucky rnd s = None"
proof -
  from assms(2) have "pickOther rnd (videos s) (videoId s) 0 = None"
    by (rule pickOther_stuck)
  with assms(1) show ?thesis by (simp add: handleFeelingLucky_def)
qed

text \<open>
  Two videos A and B, A selected, and every call of \<open>Math.random()\<close> returning 0: each
  draw is the index 0, the selected video, and the loop does not end.
\<close>

lemma lucky_stuck_example:
  "handleFeelingLucky (\<lambda>k. exampleDraw 0 1) (exampleState [''A'', ''B''] ''A'' []) = None"
proof (rule lucky_stuck)
  show "1 < length (videos (exampleState [''A'', ''B''] ''A'' []))"
    by (simp add: exampleState_def)
  have "randomIndex (exampleDraw 0 (Suc 0)) (Suc (Suc 0)) = 0"
    by (simp add: randomIndex_def exampleDraw_def round53_def bits.simps)
  then show "\<forall>k. id' (videos (exampleState [''A'', ''B''] ''A'' [])
        ! randomIndex (exampleDraw 0 1) (length (videos (exampleState [''A'', ''B''] ''A'' []))))
      = videoId (exampleState [''A'', ''B''] ''A'' [])"
    by (simp add: exampleState_def exampleVideo_def)
qed

text \<open>
  The same state with the second call returning 1/2: the loop returns at the second
  draw and B is selected.
\<close>

lemma lucky_first_example:
  "handleFeelingLucky (\<lambda>k. if k = 0 then exampleDraw 0 1 else exampleDraw 1 1)
       (exampleState [''A'', ''B''] ''A'' [])
     = Some (exampleState [''A'', ''B''] ''B'' [])"
proof -
  have i0: "randomIndex (exampleDraw 0 (Suc 0)) (Suc (Suc 0)) = 0"
    by (simp add: randomIndex_def exampleDraw_def round53_def bits.simps)
  have i1: "randomIndex (exampleDraw (Suc 0) (Suc 0)) (Suc (Suc 0)) = Suc 0"
    by (simp add: randomIndex_def exampleDraw_def round53_def Let_def bits.simps)
  have ne: "js ''B'' \<noteq> js ''A''" by (simp add: js_def)
  have "pickOther (\<lambda>k. if k = 0 then exampleDraw 0 1 else exampleDraw 1 1)
      (videos (exampleState [''A'', ''B''] ''A'' [])) (videoId (exampleState [''A'', ''B''] ''A'' [])) 0
      = pickOther (\<lambda>k. if k = 0 then exampleDraw 0 1 else exampleDraw 1 1)
      (videos (exampleState [''A'', ''B''] ''A'' [])) (videoId (exampleState [''A'', ''B''] ''A'' [])) (Suc 0)"
    by (rule pickOther_miss) (simp add: exampleState_def exampleVideo_def i0)
  also have "\<dots> = Some (js ''B'')"
    by (subst pickOther.simps) (simp add: exampleState_def exampleVideo_def i1 ne Let_def)
  finally show ?thesis
    using ne by (simp add: handleFeelingLucky_def handleSelectNewVideo_def exampleState_def)
qed

section \<open>Properties of the control panel\<close>

lemma playSound_fields [simp]:
  "pressedState (playSound s) = pressedState s"
  "soundIntervalRef (playSound s) = soundIntervalRef s"
  "intervals (playSound s) = intervals s"
  "nextHandle (playSound s) = nextHandle s"
  by (simp_all add: playSound_def split: option.splits)



lemma timersOf_playSound [simp]: "timersOf c (playSound s) = timersOf c s"
  by (simp add: timersOf_def)





























end
